theory Spec2Isabelle
  imports Main "HOL-Library.Sublist"
begin

section \<open>The Gaia all-sky notebook (experiments/DASK-notebooks/gaia_all_sky.ipynb)\<close>

text \<open>
  The notebook is a sequence of code cells over three external systems (a Kubernetes
  backed Dask cluster, the Dask parquet reader, HoloViews with datashader) and the
  standard \<^verbatim>\<open>logging\<close> module.  The cells are modelled in source order, executed
  one after the other; an exception that leaves a cell stops the execution and is the
  result.  An exception raised in the body of a cell under the magic \<^verbatim>\<open>%%time\<close> does not
  leave the cell: the magic shows the traceback and returns.

  External calls are requests to an environment.  The environment is a parameter: it
  gives, for the history of the calls made so far and the next call, the outcome of that
  call, either an exception or the object it returns, and what the call does to the
  logging configuration (so importing \<^verbatim>\<open>dask.distributed\<close> may set the levels of
  loggers, as it does).  Whatever else a call changes inside its own library is the
  environment's; it can depend on the history only.  Objects returned by the
  libraries (cluster, client, dataframes, plot elements) are opaque values of type \<open>'v\<close>.
\<close>

subsection \<open>Exceptions and external calls\<close>

text \<open>
  \<open>FileNotFoundError\<close> stands for that class and its subclasses, which is what the clause
  \<^verbatim>\<open>except FileNotFoundError\<close> matches; \<open>NameError\<close> is raised by reading an unbound
  notebook variable; \<open>OtherError n\<close> is an exception of any other class, \<open>n\<close> its class name.
\<close>

datatype exn = FileNotFoundError | NameError | OtherError string

datatype 'v call =
    Import string
  | KubeCluster_from_yaml string
  | Cluster_scale_up 'v int
  | Client_new 'v
  | Read_parquet string "string list" "string list" string
  | Client_persist 'v 'v
  | Df_len 'v
  | Hv_extension "string list"
  | Hv_Points 'v
  | Hd_datashade 'v
  | Cluster_close 'v

type_synonym 'v history = "('v call \<times> (exn + 'v)) list"


subsection \<open>The logging module\<close>

text \<open>
  The part of the state of Python's \<^verbatim>\<open>logging\<close> that the notebook reads and writes.
  \<open>level\<close> gives the own level of the logger of each name, \<open>0\<close> (\<^verbatim>\<open>NOTSET\<close>) for a logger
  that has none or does not exist yet; \<open>root_level\<close> is the level of the root logger;
  \<open>disable\<close> is \<^verbatim>\<open>manager.disable\<close> and \<open>disabled\<close> the flag of each logger.  \<open>emitted\<close>
  collects the records handed to the handlers (logger name, message) and \<open>setLevel_calls\<close>
  the calls of \<^verbatim>\<open>setLevel\<close>, in order.
\<close>

record logging_config =
  level :: "string \<Rightarrow> int"
  root_level :: int
  disable :: int
  disabled :: "string \<Rightarrow> bool"
  emitted :: "(string \<times> string) list"
  setLevel_calls :: "(string \<times> int) list"

definition NOTSET :: int where "NOTSET = 0"
definition DEBUG :: int where "DEBUG = 10"
definition INFO :: int where "INFO = 20"

text \<open>
  The ancestors of a dotted logger name, nearest first: the prefixes that end before a
  dot at a position greater than 0.  A logger's parent is its nearest existing
  ancestor; an ancestor that does not exist has level \<^verbatim>\<open>NOTSET\<close> here and is passed over
  by \<open>getEffectiveLevel\<close>, which gives the same result for a name without empty
  components, as the five names of the notebook are.  Creating a logger
  (\<^verbatim>\<open>getLogger\<close>) changes no level and is not recorded.
\<close>

definition ancestors :: "string \<Rightarrow> string list" where
  "ancestors name =
     rev (map (\<lambda>i. take i name) (filter (\<lambda>i. name ! i = CHR ''.'') [1..<length name]))"

text \<open>
  \<^verbatim>\<open>
  def getEffectiveLevel(self):
      logger = self
      while logger:
          if logger.level:
              return logger.level
          logger = logger.parent
      return NOTSET
  \<close>
\<close>

definition getEffectiveLevel :: "logging_config \<Rightarrow> string \<Rightarrow> int" where
  "getEffectiveLevel L name =
     (case find (\<lambda>l. l \<noteq> 0) (map (level L) (name # ancestors name) @ [root_level L]) of
        Some l \<Rightarrow> l
      | None \<Rightarrow> NOTSET)"

definition setLevel :: "string \<Rightarrow> int \<Rightarrow> logging_config \<Rightarrow> logging_config" where
  "setLevel name l L =
     L\<lparr>level := (level L)(name := l), setLevel_calls := setLevel_calls L @ [(name, l)]\<rparr>"

definition isEnabledFor :: "logging_config \<Rightarrow> string \<Rightarrow> int \<Rightarrow> bool" where
  "isEnabledFor L name l =
     (if disabled L name then False
      else if disable L \<ge> l then False
      else l \<ge> getEffectiveLevel L name)"

definition debug :: "string \<Rightarrow> string \<Rightarrow> logging_config \<Rightarrow> logging_config" where
  "debug name msg L =
     (if isEnabledFor L name DEBUG then L\<lparr>emitted := emitted L @ [(name, msg)]\<rparr> else L)"

text \<open>
  The body of the loop of the logging cell, for one value of \<^verbatim>\<open>comp\<close>:
  \<^verbatim>\<open>
      dcl = logging.getLogger('distributed{}'.format(comp))
      if dcl.getEffectiveLevel() < logging.INFO:
          dcl.debug("Setting loglevel for {} to INFO.".format(dcl.name))
          dcl.setLevel(logging.INFO)
  \<close>
\<close>

definition quiet_logger :: "string \<Rightarrow> logging_config \<Rightarrow> logging_config" where
  "quiet_logger cmp L =
     (let name = ''distributed'' @ cmp in
      if getEffectiveLevel L name < INFO
      then setLevel name INFO
             (debug name (''Setting loglevel for '' @ name @ '' to INFO.'') L)
      else L)"

definition components :: "string list" where
  "components = ['''', ''.core'', ''.comm'', ''.client'', ''.scheduler'']"

definition logging_setup :: "logging_config \<Rightarrow> logging_config" where
  "logging_setup L = fold quiet_logger components L"

definition distributed_loggers :: "string list" where
  "distributed_loggers = map (\<lambda>cmp. ''distributed'' @ cmp) components"

text \<open>The calls of \<^verbatim>\<open>setLevel\<close> that the loop makes, in order.\<close>

definition setLevel_by_setup :: "logging_config \<Rightarrow> (string \<times> int) list" where
  "setLevel_by_setup L = drop (length (setLevel_calls L)) (setLevel_calls (logging_setup L))"

text \<open>
  The environment: \<open>respond\<close> gives the outcome of a call after a history, \<open>relog\<close> what
  the call does to the logging configuration.
\<close>

record 'v world =
  respond :: "'v history \<Rightarrow> 'v call \<Rightarrow> exn + 'v"
  relog :: "'v history \<Rightarrow> 'v call \<Rightarrow> logging_config \<Rightarrow> logging_config"

subsection \<open>The state of the notebook\<close>

text \<open>What the notebook's own statements write outside its variables.\<close>

datatype gwrite = Set_level string int | Set_attr string "string list"

text \<open>
  \<open>history\<close> is the sequence of external calls made so far, each with its outcome.
  \<open>logcfg\<close> is the state of the logging module, \<open>shade_cmap\<close> the class attribute
  \<^verbatim>\<open>holoviews.operation.datashader.shade.cmap\<close>, which the notebook assigns and which the
  calls it makes are taken to leave alone.  \<open>names\<close> are the names that the imports
  have bound; \<open>cluster\<close>, \<open>client\<close>, \<open>df\<close> and \<open>points\<close> are the notebook's variables, \<open>None\<close>
  while unbound.  \<open>writes\<close> records, in order, the calls of \<^verbatim>\<open>setLevel\<close> and the attribute
  assignments that the notebook's own statements make, and \<open>tracebacks\<close> the exceptions
  that \<^verbatim>\<open>%%time\<close> has shown.
\<close>

record 'v state =
  history :: "'v history"
  logcfg :: logging_config
  shade_cmap :: "string list"
  names :: "string set"
  cluster :: "'v option"
  client :: "'v option"
  df :: "'v option"
  points :: "'v option"
  writes :: "gwrite list"
  tracebacks :: "exn list"

type_synonym 'v stmt = "'v state \<Rightarrow> exn option \<times> 'v state"

text \<open>Statements and cells in sequence: the first exception ends the execution.\<close>

fun exec :: "'v stmt list \<Rightarrow> 'v stmt" where
  "exec [] s = (None, s)"
| "exec (c # cs) s =
     (case c s of
        (Some e, s') \<Rightarrow> (Some e, s')
      | (None, s') \<Rightarrow> exec cs s')"

definition invoke :: "'v world \<Rightarrow> 'v call \<Rightarrow> 'v state \<Rightarrow> (exn + 'v) \<times> 'v state" where
  "invoke w c s =
     (let r = respond w (history s) c
      in (r, s\<lparr>history := history s @ [(c, r)],
                logcfg := relog w (history s) c (logcfg s)\<rparr>))"

text \<open>A call whose result is bound (or dropped) by \<open>bind\<close>; its exception is not handled.\<close>

definition call_stmt :: "'v world \<Rightarrow> 'v call \<Rightarrow> ('v \<Rightarrow> 'v state \<Rightarrow> 'v state) \<Rightarrow> 'v stmt" where
  "call_stmt w c bind s =
     (case invoke w c s of
        (Inl e, s') \<Rightarrow> (Some e, s')
      | (Inr v, s') \<Rightarrow> (None, bind v s'))"

definition drop_result :: "'v \<Rightarrow> 'v state \<Rightarrow> 'v state" where
  "drop_result v s = s"

text \<open>Reading a notebook variable.\<close>

definition with_var :: "('v state \<Rightarrow> 'v option) \<Rightarrow> ('v \<Rightarrow> 'v stmt) \<Rightarrow> 'v stmt" where
  "with_var x k s = (case x s of None \<Rightarrow> (Some NameError, s) | Some v \<Rightarrow> k v s)"

text \<open>Reading a name that only an import binds.\<close>

definition with_name :: "string \<Rightarrow> 'v stmt \<Rightarrow> 'v stmt" where
  "with_name n k s = (if n \<in> names s then k s else (Some NameError, s))"

text \<open>An import statement: the module \<open>m\<close> is imported and the names \<open>ns\<close> are bound.\<close>

definition import_module :: "'v world \<Rightarrow> string \<Rightarrow> string list \<Rightarrow> 'v stmt" where
  "import_module w m ns = call_stmt w (Import m) (\<lambda>v s. s\<lparr>names := set ns \<union> names s\<rparr>)"

text \<open>
  The cell magic \<^verbatim>\<open>%%time\<close> (IPython, \<^verbatim>\<open>core/magics/execution.py\<close>) runs the body of its
  cell under
  \<^verbatim>\<open>
      try:
          ...
      except:
          self.shell.showtraceback()
          return
  \<close>
  so that an exception of the body is shown and the cell ends without one.  The time it
  prints is not modelled.
\<close>

definition time_magic :: "'v stmt \<Rightarrow> 'v stmt" where
  "time_magic body s =
     (case body s of
        (Some e, s') \<Rightarrow> (None, s'\<lparr>tracebacks := tracebacks s' @ [e]\<rparr>)
      | (None, s') \<Rightarrow> (None, s'))"

subsection \<open>The cells\<close>

definition worker_template :: string where
  "worker_template = ''/etc/dask/dask_worker.yml''"

definition primary_path :: string where
  "primary_path = ''/project/shared/data/gaia_dr2/gaia_source.parquet''"

definition fallback_path :: string where
  "fallback_path = ''/project/shared/data/rsp_check_data/parquet/gaia_source.parquet''"

definition cloud_path :: string where
  "cloud_path = ''gs://jupyterlabdemo-gaia-dr2/gaia_source.parquet''"

definition shade_cmap_attr :: string where
  "shade_cmap_attr = ''holoviews.operation.datashader.shade.cmap''"

text \<open>
  \<^verbatim>\<open>
  import holoviews as hv
  import holoviews.operation.datashader as hd
  \<close>
\<close>

definition cell_visualization_imports :: "'v world \<Rightarrow> 'v stmt" where
  "cell_visualization_imports w =
     exec [import_module w ''holoviews'' [''hv''],
           import_module w ''holoviews.operation.datashader'' [''hd'']]"

text \<open>
  \<^verbatim>\<open>
  from dask.distributed import Client, wait
  from dask import dataframe as dd
  from dask_kubernetes import KubeCluster
  import os
  cluster = KubeCluster.from_yaml('/etc/dask/dask_worker.yml')
  \<close>
\<close>

definition cell_cluster :: "'v world \<Rightarrow> 'v stmt" where
  "cell_cluster w =
     exec [import_module w ''dask.distributed'' [''Client'', ''wait''],
           import_module w ''dask'' [''dd''],
           import_module w ''dask_kubernetes'' [''KubeCluster''],
           import_module w ''os'' [''os''],
           with_name ''KubeCluster''
             (call_stmt w (KubeCluster_from_yaml ''/etc/dask/dask_worker.yml'')
                (\<lambda>v s. s\<lparr>cluster := Some v\<rparr>))]"

text \<open>
  \<^verbatim>\<open>
  import logging
  for comp in ['','.core', '.comm', '.client', '.scheduler']:
      ...
  \<close>
  The loop is \<open>logging_setup\<close>; the calls of \<^verbatim>\<open>setLevel\<close> it makes are recorded among the
  writes of the notebook.
\<close>

definition cell_logging :: "'v world \<Rightarrow> 'v stmt" where
  "cell_logging w =
     exec [import_module w ''logging'' [''logging''],
           with_name ''logging''
             (\<lambda>s. (None, s\<lparr>logcfg := logging_setup (logcfg s),
                             writes := writes s @
                               map (\<lambda>x. Set_level (fst x) (snd x))
                                 (setLevel_by_setup (logcfg s))\<rparr>))]"

text \<open>
  \<^verbatim>\<open>
  _ = cluster.scale_up(15)
  client = Client(cluster)
  client
  \<close>
  The variable \<^verbatim>\<open>_\<close> is never read: the result of the scale-up is dropped.  The last
  line displays \<^verbatim>\<open>client\<close>; the model reads the variable and shows nothing.
\<close>

definition cell_scale_up :: "'v world \<Rightarrow> 'v stmt" where
  "cell_scale_up w =
     exec [with_var cluster (\<lambda>c. call_stmt w (Cluster_scale_up c 15) drop_result),
           with_name ''Client'' (with_var cluster (\<lambda>c.
             call_stmt w (Client_new c) (\<lambda>v s. s\<lparr>client := Some v\<rparr>))),
           with_var client (\<lambda>c s. (None, s))]"

text \<open>\<^verbatim>\<open>client\<close>\<close>

definition cell_client :: "'v stmt" where
  "cell_client = with_var client (\<lambda>c s. (None, s))"

text \<open>
  \<^verbatim>\<open>
  try:
      df = dd.read_parquet('/project/shared/data/gaia_dr2/gaia_source.parquet',
                           columns=['l', 'b'], index=[], engine='fastparquet')
  except FileNotFoundError:
      df = dd.read_parquet('/project/shared/data/rsp_check_data/parquet/gaia_source.parquet',
                           columns=['l', 'b'], index=[], engine='fastparquet')
  \<close>
  \<open>NameError\<close> from reading \<^verbatim>\<open>dd\<close> is not \<open>FileNotFoundError\<close> and leaves the cell.
\<close>

definition cell_read_parquet :: "'v world \<Rightarrow> 'v stmt" where
  "cell_read_parquet w =
     with_name ''dd'' (\<lambda>s.
       case invoke w (Read_parquet ''/project/shared/data/gaia_dr2/gaia_source.parquet''
                        [''l'', ''b''] [] ''fastparquet'') s of
         (Inr v, s1) \<Rightarrow> (None, s1\<lparr>df := Some v\<rparr>)
       | (Inl FileNotFoundError, s1) \<Rightarrow>
           with_name ''dd'' (\<lambda>s.
             case invoke w (Read_parquet
                   ''/project/shared/data/rsp_check_data/parquet/gaia_source.parquet''
                   [''l'', ''b''] [] ''fastparquet'') s of
               (Inr v, s2) \<Rightarrow> (None, s2\<lparr>df := Some v\<rparr>)
             | (Inl e, s2) \<Rightarrow> (Some e, s2)) s1
       | (Inl e, s1) \<Rightarrow> (Some e, s1))"

text \<open>\<^verbatim>\<open>df = client.persist(df)\<close>\<close>

definition cell_persist :: "'v world \<Rightarrow> 'v stmt" where
  "cell_persist w =
     with_var client (\<lambda>c. with_var df (\<lambda>d.
       call_stmt w (Client_persist c d) (\<lambda>v s. s\<lparr>df := Some v\<rparr>)))"

text \<open>
  \<^verbatim>\<open>
  %%time
  len(df)
  \<close>
\<close>

definition cell_len :: "'v world \<Rightarrow> 'v stmt" where
  "cell_len w = time_magic (with_var df (\<lambda>d. call_stmt w (Df_len d) drop_result))"

text \<open>
  \<^verbatim>\<open>
  hd.shade.cmap=["lightblue", "darkblue"]
  hv.extension("bokeh", "matplotlib")
  \<close>
  The assignment writes a class attribute of the library and is recorded among the writes
  of the notebook.  What \<^verbatim>\<open>hv.extension\<close> sets up inside holoviews (the current backend
  and its renderers) is the environment's and has no field in the state.
\<close>

definition cell_cmap :: "'v world \<Rightarrow> 'v stmt" where
  "cell_cmap w =
     exec [with_name ''hd''
             (\<lambda>s. (None, s\<lparr>shade_cmap := [''lightblue'', ''darkblue''],
                             writes := writes s @
                               [Set_attr ''holoviews.operation.datashader.shade.cmap''
                                  [''lightblue'', ''darkblue'']]\<rparr>)),
           with_name ''hv''
             (call_stmt w (Hv_extension [''bokeh'', ''matplotlib'']) drop_result)]"

text \<open>\<^verbatim>\<open>points = hv.Points(df)\<close>\<close>

definition cell_points :: "'v world \<Rightarrow> 'v stmt" where
  "cell_points w =
     with_name ''hv'' (with_var df (\<lambda>d.
       call_stmt w (Hv_Points d) (\<lambda>v s. s\<lparr>points := Some v\<rparr>)))"

text \<open>
  \<^verbatim>\<open>
  %%time
  %%opts RGB [width=800, height=400]
  hd.datashade(points)
  \<close>
  The second magic gives the size of the displayed plot and then runs the line below it;
  the options are not modelled.
\<close>

definition cell_datashade :: "'v world \<Rightarrow> 'v stmt" where
  "cell_datashade w =
     time_magic (with_name ''hd'' (with_var points (\<lambda>p.
       call_stmt w (Hd_datashade p) drop_result)))"

text \<open>\<^verbatim>\<open>cluster.close()\<close>\<close>

definition cell_close :: "'v world \<Rightarrow> 'v stmt" where
  "cell_close w = with_var cluster (\<lambda>c. call_stmt w (Cluster_close c) drop_result)"

definition notebook :: "'v world \<Rightarrow> 'v stmt list" where
  "notebook w =
     [cell_visualization_imports w, cell_cluster w, cell_logging w, cell_scale_up w,
      cell_client, cell_read_parquet w, cell_persist w, cell_len w, cell_cmap w,
      cell_points w, cell_datashade w, cell_close w]"

text \<open>A fresh kernel: no call made, no name or variable bound.\<close>

definition fresh :: "logging_config \<Rightarrow> string list \<Rightarrow> 'v state" where
  "fresh L cmap =
     \<lparr>history = [], logcfg = L, shade_cmap = cmap, names = {},
      cluster = None, client = None, df = None, points = None,
      writes = [], tracebacks = []\<rparr>"

definition run :: "'v world \<Rightarrow> logging_config \<Rightarrow> string list \<Rightarrow> exn option \<times> 'v state" where
  "run w L cmap = exec (notebook w) (fresh L cmap)"

subsection \<open>Observations on an execution\<close>

definition calls :: "'v state \<Rightarrow> 'v call list" where
  "calls s = map fst (history s)"

text \<open>A call without the objects it is applied to: what remains are its literal arguments.\<close>

definition erase :: "'v call \<Rightarrow> unit call" where
  "erase c = map_call (\<lambda>_. ()) c"

definition primary_read :: "'v call" where
  "primary_read = Read_parquet primary_path [''l'', ''b''] [] ''fastparquet''"

definition fallback_read :: "'v call" where
  "fallback_read = Read_parquet fallback_path [''l'', ''b''] [] ''fastparquet''"

text \<open>The calls of the cells in source order, up to the read of the primary path \<dots>\<close>

definition script_head :: "unit call list" where
  "script_head =
     [Import ''holoviews'', Import ''holoviews.operation.datashader'',
      Import ''dask.distributed'', Import ''dask'', Import ''dask_kubernetes'', Import ''os'',
      KubeCluster_from_yaml worker_template, Import ''logging'',
      Cluster_scale_up () 15, Client_new (), primary_read]"

text \<open>\<dots> and from the persist cell on.\<close>

definition script_tail :: "unit call list" where
  "script_tail =
     [Client_persist () (), Df_len (), Hv_extension [''bokeh'', ''matplotlib''],
      Hv_Points (), Hd_datashade (), Cluster_close ()]"

definition script_primary :: "unit call list" where
  "script_primary = script_head @ script_tail"

definition script_fallback :: "unit call list" where
  "script_fallback = script_head @ [fallback_read] @ script_tail"

text \<open>
  The one handler of the notebook: \<^verbatim>\<open>except FileNotFoundError\<close> around the read of the
  primary path.
\<close>

definition handled :: "'v call \<Rightarrow> exn \<Rightarrow> bool" where
  "handled c e =
     (case c of
        Read_parquet p cols idx eng \<Rightarrow> p = primary_path \<and> e = FileNotFoundError
      | _ \<Rightarrow> False)"

text \<open>The calls made under \<^verbatim>\<open>%%time\<close>: the row count and the rendering.\<close>

definition timed :: "'v call \<Rightarrow> bool" where
  "timed c = (case c of Df_len d \<Rightarrow> True | Hd_datashade p \<Rightarrow> True | _ \<Rightarrow> False)"

definition passed :: "'v call \<times> (exn + 'v) \<Rightarrow> bool" where
  "passed x = (case snd x of Inr v \<Rightarrow> True | Inl e \<Rightarrow> handled (fst x) e \<or> timed (fst x))"

fun caught_followed :: "'v history \<Rightarrow> bool" where
  "caught_followed [] = True"
| "caught_followed (x # h) =
     ((case snd x of
         Inr v \<Rightarrow> True
       | Inl e \<Rightarrow> handled (fst x) e \<longrightarrow> (case h of [] \<Rightarrow> False | y # _ \<Rightarrow> fst y = fallback_read))
      \<and> caught_followed h)"

text \<open>The exceptions raised under \<^verbatim>\<open>%%time\<close> are among the tracebacks shown.\<close>

definition shown :: "exn list \<Rightarrow> 'v history \<Rightarrow> bool" where
  "shown tb h =
     list_all (\<lambda>x. case snd x of Inr v \<Rightarrow> True | Inl e \<Rightarrow> timed (fst x) \<longrightarrow> e \<in> set tb) h"

definition outcomes :: "exn option \<Rightarrow> 'v state \<Rightarrow> bool" where
  "outcomes r s =
     (list_all passed (butlast (history s)) \<and>
      (case r of
         None \<Rightarrow> list_all passed (history s)
       | Some e \<Rightarrow> history s \<noteq> [] \<and> snd (last (history s)) = Inl e \<and>
           \<not> handled (fst (last (history s))) e \<and> \<not> timed (fst (last (history s)))) \<and>
      caught_followed (history s) \<and>
      shown (tracebacks s) (history s))"

definition shape :: "exn option \<Rightarrow> 'v history \<Rightarrow> bool" where
  "shape r h =
     ((prefix (map (erase \<circ> fst) h) script_primary \<or>
       prefix (map (erase \<circ> fst) h) script_fallback) \<and>
      (r = None \<longrightarrow>
         map (erase \<circ> fst) h = script_primary \<or> map (erase \<circ> fst) h = script_fallback))"

definition wired :: "'v history \<Rightarrow> bool" where
  "wired h =
     list_all
       (\<lambda>x. case fst x of
              Cluster_scale_up c n \<Rightarrow> (KubeCluster_from_yaml worker_template, Inr c) \<in> set h
            | _ \<Rightarrow> True) h"

text \<open>The dataframe has been persisted: the call has returned.\<close>

definition persisted :: "'v history \<Rightarrow> bool" where
  "persisted h =
     list_ex
       (\<lambda>x. case fst x of
              Client_persist c d \<Rightarrow> (case snd x of Inr v \<Rightarrow> True | Inl e \<Rightarrow> False)
            | _ \<Rightarrow> False) h"

definition own_write :: "gwrite \<Rightarrow> bool" where
  "own_write x =
     (case x of
        Set_level n l \<Rightarrow> n \<in> set distributed_loggers \<and> l = INFO
      | Set_attr a v \<Rightarrow> a = shade_cmap_attr \<and> v = [''lightblue'', ''darkblue''])"

definition frame :: "string list \<Rightarrow> 'v state \<Rightarrow> bool" where
  "frame cmap s =
     (shade_cmap s = (if persisted (history s) then [''lightblue'', ''darkblue''] else cmap) \<and>
      (Set_attr shade_cmap_attr [''lightblue'', ''darkblue''] \<in> set (writes s)) =
        persisted (history s) \<and>
      list_all own_write (writes s))"

definition caught :: "'v call \<times> (exn + 'v) \<Rightarrow> bool" where
  "caught x = (case snd x of Inr v \<Rightarrow> False | Inl e \<Rightarrow> handled (fst x) e)"

text \<open>What holds of every execution, whether it ends in an exception \<open>r\<close> or not.\<close>

definition final :: "exn option \<Rightarrow> string list \<Rightarrow> 'v state \<Rightarrow> bool" where
  "final r cmap s =
     (shape r (history s) \<and> outcomes r s \<and> wired (history s) \<and> frame cmap s)"

text \<open>
  What holds between two cells: after \<open>k\<close> cells the calls made are \<open>E\<close>, up to the
  objects they are applied to, none of them has raised an exception that left its cell,
  the names and variables that the cells so far bind are bound, and the colormap is
  assigned from the ninth cell on.
\<close>

definition bound_after :: "nat \<Rightarrow> 'v state \<Rightarrow> bool" where
  "bound_after k s =
     ((1 \<le> k \<longrightarrow> ''hv'' \<in> names s \<and> ''hd'' \<in> names s) \<and>
      (2 \<le> k \<longrightarrow> ''Client'' \<in> names s \<and> ''dd'' \<in> names s \<and>
         cluster s \<noteq> None \<and>
         (KubeCluster_from_yaml worker_template, Inr (the (cluster s))) \<in> set (history s)) \<and>
      (4 \<le> k \<longrightarrow> client s \<noteq> None) \<and>
      (6 \<le> k \<longrightarrow> df s \<noteq> None) \<and>
      (persisted (history s) = (7 \<le> k)) \<and>
      (10 \<le> k \<longrightarrow> points s \<noteq> None))"

definition erased :: "'v history \<Rightarrow> unit call list" where
  "erased h = map (erase \<circ> fst) h"

definition between :: "nat \<Rightarrow> unit call list \<Rightarrow> string list \<Rightarrow> 'v state \<Rightarrow> bool" where
  "between k E cmap s =
     (erased (history s) = E \<and>
      list_all passed (history s) \<and> caught_followed (history s) \<and>
      shown (tracebacks s) (history s) \<and> wired (history s) \<and>
      shade_cmap s = (if 9 \<le> k then [''lightblue'', ''darkblue''] else cmap) \<and>
      (Set_attr shade_cmap_attr [''lightblue'', ''darkblue''] \<in> set (writes s)) = (9 \<le> k) \<and>
      list_all own_write (writes s) \<and>
      bound_after k s)"

text \<open>The paths of the dataset reads among a sequence of calls, in order.\<close>

definition read_paths :: "'v call list \<Rightarrow> string list" where
  "read_paths cs =
     List.map_filter (\<lambda>c. case c of Read_parquet p cols idx eng \<Rightarrow> Some p | _ \<Rightarrow> None) cs"





text \<open>The loggers whose level the logging cell has set, in order.\<close>

definition written_by_setup :: "logging_config \<Rightarrow> string list" where
  "written_by_setup L =
     map fst (drop (length (setLevel_calls L)) (setLevel_calls (logging_setup L)))"

subsection \<open>Some environments\<close>

text \<open>Every call returns, with a fresh object, and leaves the logging configuration alone.\<close>

definition obliging :: "nat world" where
  "obliging = \<lparr>respond = (\<lambda>h c. Inr (length h)), relog = (\<lambda>h c L. L)\<rparr>"

text \<open>The primary dataset is absent; every other call returns.\<close>

definition primary_missing :: "nat world" where
  "primary_missing =
     \<lparr>respond = (\<lambda>h c. case c of
          Read_parquet p cols idx eng \<Rightarrow>
            if p = primary_path then Inl FileNotFoundError else Inr (length h)
        | _ \<Rightarrow> Inr (length h)),
      relog = (\<lambda>h c L. L)\<rparr>"

text \<open>The scheduler is lost when the dataframe is persisted.\<close>

definition persist_fails :: "nat world" where
  "persist_fails =
     \<lparr>respond = (\<lambda>h c. case c of
          Client_persist cl d \<Rightarrow> Inl (OtherError ''TimeoutError'')
        | _ \<Rightarrow> Inr (length h)),
      relog = (\<lambda>h c L. L)\<rparr>"

text \<open>A worker dies while the rows are counted.\<close>

definition len_fails :: "nat world" where
  "len_fails =
     \<lparr>respond = (\<lambda>h c. case c of
          Df_len d \<Rightarrow> Inl (OtherError ''KilledWorker'')
        | _ \<Rightarrow> Inr (length h)),
      relog = (\<lambda>h c L. L)\<rparr>"

text \<open>The logging module as Python starts it: the root logger at \<^verbatim>\<open>WARNING\<close>.\<close>

definition plain_logging :: logging_config where
  "plain_logging =
     \<lparr>level = (\<lambda>n. 0), root_level = 30, disable = 0, disabled = (\<lambda>n. False),
      emitted = [], setLevel_calls = []\<rparr>"

text \<open>Debug logging on at the root, and \<^verbatim>\<open>distributed.comm\<close> at \<^verbatim>\<open>WARNING\<close>.\<close>

definition debug_logging :: logging_config where
  "debug_logging =
     \<lparr>level = (\<lambda>n. if n = ''distributed.comm'' then 30 else 0), root_level = 10,
      disable = 0, disabled = (\<lambda>n. False), emitted = [], setLevel_calls = []\<rparr>"

definition fire_cmap :: "string list" where
  "fire_cmap = [''black'', ''red'', ''yellow'', ''white'']"

section \<open>The logging cell\<close>

lemma ancestors_distributed:
  "ancestors ''distributed'' = []"
  "ancestors ''distributed.core'' = [''distributed'']"
  "ancestors ''distributed.comm'' = [''distributed'']"
  "ancestors ''distributed.client'' = [''distributed'']"
  "ancestors ''distributed.scheduler'' = [''distributed'']"
  by (simp_all add: ancestors_def upt_rec)

lemma eff_top:
  "getEffectiveLevel L ''distributed'' =
     (if level L ''distributed'' \<noteq> 0 then level L ''distributed''
      else if root_level L \<noteq> 0 then root_level L else 0)"
  by (simp add: getEffectiveLevel_def ancestors_distributed NOTSET_def)

lemma eff_child:
  "name \<in> {''distributed.core'', ''distributed.comm'', ''distributed.client'',
            ''distributed.scheduler''} \<Longrightarrow>
   getEffectiveLevel L name =
     (if level L name \<noteq> 0 then level L name else getEffectiveLevel L ''distributed'')"
  by (auto simp add: getEffectiveLevel_def ancestors_distributed NOTSET_def)

lemma eff_own: "level L name \<noteq> 0 \<Longrightarrow> getEffectiveLevel L name = level L name"
  by (simp add: getEffectiveLevel_def)

lemma quiet_level:
  "level (quiet_logger c L) =
     (if getEffectiveLevel L (''distributed'' @ c) < INFO
      then (level L)(''distributed'' @ c := INFO) else level L)"
  by (simp add: quiet_logger_def Let_def setLevel_def debug_def)

lemma quiet_root: "root_level (quiet_logger c L) = root_level L"
  by (simp add: quiet_logger_def Let_def setLevel_def debug_def)

lemma quiet_disable:
  "disable (quiet_logger c L) = disable L" "disabled (quiet_logger c L) = disabled L"
  by (simp_all add: quiet_logger_def Let_def setLevel_def debug_def)

lemma quiet_calls:
  "setLevel_calls (quiet_logger c L) =
     setLevel_calls L @
       (if getEffectiveLevel L (''distributed'' @ c) < INFO
        then [(''distributed'' @ c, INFO)] else [])"
  by (simp add: quiet_logger_def Let_def setLevel_def debug_def)

lemma quiet_id: "INFO \<le> getEffectiveLevel L (''distributed'' @ c) \<Longrightarrow> quiet_logger c L = L"
  by (simp add: quiet_logger_def Let_def)

lemma quiet_self: "INFO \<le> getEffectiveLevel (quiet_logger c L) (''distributed'' @ c)"
  by (simp add: quiet_logger_def Let_def eff_own setLevel_def INFO_def)

lemma quiet_level_other:
  "name \<noteq> ''distributed'' @ c \<Longrightarrow> level (quiet_logger c L) name = level L name"
  by (simp add: quiet_level)

lemma names_cases:
  "name \<in> set distributed_loggers \<longleftrightarrow>
     name = ''distributed'' \<or> name = ''distributed.core'' \<or> name = ''distributed.comm'' \<or>
     name = ''distributed.client'' \<or> name = ''distributed.scheduler''"
  by (auto simp add: distributed_loggers_def components_def)

lemma in_names:
  "''distributed'' \<in> set distributed_loggers"
  "''distributed.core'' \<in> set distributed_loggers"
  "''distributed.comm'' \<in> set distributed_loggers"
  "''distributed.client'' \<in> set distributed_loggers"
  "''distributed.scheduler'' \<in> set distributed_loggers"
  by (simp_all add: names_cases)

lemma in_components:
  "[] \<in> set components" "''.core'' \<in> set components" "''.comm'' \<in> set components"
  "''.client'' \<in> set components" "''.scheduler'' \<in> set components"
  by (simp_all add: components_def)

text \<open>A step for a child logger leaves the effective level of the other four alone.\<close>

lemma quiet_eff_other:
  assumes "c \<in> {''.core'', ''.comm'', ''.client'', ''.scheduler''}"
    and "name \<in> set distributed_loggers" and "name \<noteq> ''distributed'' @ c"
  shows "getEffectiveLevel (quiet_logger c L) name = getEffectiveLevel L name"
proof -
  have top: "level (quiet_logger c L) ''distributed'' = level L ''distributed''"
    using assms(1) by (auto simp add: quiet_level_other)
  have own: "level (quiet_logger c L) name = level L name"
    using assms(3) by (rule quiet_level_other)
  from assms(2) consider "name = ''distributed''"
    | "name \<in> {''distributed.core'', ''distributed.comm'', ''distributed.client'',
                ''distributed.scheduler''}"
    by (auto simp add: names_cases)
  then show ?thesis
  proof cases
    case 1
    then show ?thesis by (simp add: eff_top top quiet_root)
  next
    case 2
    then show ?thesis by (simp only: eff_child [OF 2] eff_top top own quiet_root)
  qed
qed

text \<open>The step for \<^verbatim>\<open>distributed\<close> leaves a child alone that is at \<^verbatim>\<open>INFO\<close> or above.\<close>

lemma quiet_top_child:
  assumes "name \<in> {''distributed.core'', ''distributed.comm'', ''distributed.client'',
                    ''distributed.scheduler''}"
    and "INFO \<le> getEffectiveLevel L name"
  shows "getEffectiveLevel (quiet_logger [] L) name = getEffectiveLevel L name"
proof (cases "INFO \<le> getEffectiveLevel L ''distributed''")
  case True
  then show ?thesis by (simp add: quiet_id)
next
  case False
  with assms(2) have own: "level L name \<noteq> 0"
    by (auto simp add: eff_child [OF assms(1)] split: if_splits)
  moreover have "level (quiet_logger [] L) name = level L name"
    using assms(1) by (auto simp add: quiet_level_other)
  ultimately show ?thesis by (simp add: eff_own)
qed

lemma quiet_stable:
  assumes "c \<in> set components" and "name \<in> set distributed_loggers"
    and "INFO \<le> getEffectiveLevel L name"
  shows "getEffectiveLevel (quiet_logger c L) name = getEffectiveLevel L name"
    and "level (quiet_logger c L) name = level L name"
proof -
  show "level (quiet_logger c L) name = level L name"
    using assms(3)
    by (cases "name = ''distributed'' @ c") (simp_all add: quiet_id quiet_level_other)
  show "getEffectiveLevel (quiet_logger c L) name = getEffectiveLevel L name"
  proof (cases "name = ''distributed'' @ c")
    case True
    with assms(3) show ?thesis by (simp add: quiet_id)
  next
    case False
    show ?thesis
    proof (cases "c = []")
      case True
      with False assms(2) have "name \<in> {''distributed.core'', ''distributed.comm'',
          ''distributed.client'', ''distributed.scheduler''}"
        by (auto simp add: names_cases)
      with assms(3) True show ?thesis by (simp only: quiet_top_child)
    next
      case c: False
      with assms(1) have "c \<in> {''.core'', ''.comm'', ''.client'', ''.scheduler''}"
        by (auto simp add: components_def)
      then show ?thesis using assms(2) False by (rule quiet_eff_other)
    qed
  qed
qed

lemma setup_unfold:
  "logging_setup L =
     quiet_logger ''.scheduler'' (quiet_logger ''.client'' (quiet_logger ''.comm''
       (quiet_logger ''.core'' (quiet_logger [] L))))"
  by (simp add: logging_setup_def components_def)

lemma setup_eff:
  assumes "name \<in> set distributed_loggers"
  shows "INFO \<le> getEffectiveLevel (logging_setup L) name"
proof -
  have a: "INFO \<le> getEffectiveLevel (quiet_logger [] L) ''distributed''" for L
    using quiet_self [of "[]" L] by simp
  have b: "INFO \<le> getEffectiveLevel (quiet_logger ''.core'' L) ''distributed.core''" for L
    using quiet_self [of "''.core''" L] by simp
  have c: "INFO \<le> getEffectiveLevel (quiet_logger ''.comm'' L) ''distributed.comm''" for L
    using quiet_self [of "''.comm''" L] by simp
  have d: "INFO \<le> getEffectiveLevel (quiet_logger ''.client'' L) ''distributed.client''" for L
    using quiet_self [of "''.client''" L] by simp
  have e: "INFO \<le> getEffectiveLevel (quiet_logger ''.scheduler'' L) ''distributed.scheduler''"
    for L
    using quiet_self [of "''.scheduler''" L] by simp
  from assms show ?thesis
    unfolding names_cases setup_unfold
    by (elim disjE) (simp_all add: quiet_eff_other in_names a b c d e)
qed

lemma setup_level_keep:
  assumes "name \<in> set distributed_loggers" and "INFO \<le> getEffectiveLevel L name"
  shows "level (logging_setup L) name = level L name"
  unfolding setup_unfold using assms by (simp add: quiet_stable in_components)

lemma setup_eff_keep:
  assumes "name \<in> set distributed_loggers" and "INFO \<le> getEffectiveLevel L name"
  shows "getEffectiveLevel (logging_setup L) name = getEffectiveLevel L name"
  unfolding setup_unfold using assms by (simp add: quiet_stable in_components)

lemma map_fst_if: "map fst (if P then [(a, b)] else []) = (if P then [a] else [])"
  by simp

lemma setup_written:
  "written_by_setup L =
     (if getEffectiveLevel L ''distributed'' < INFO then [''distributed''] else []) @
     (if getEffectiveLevel (quiet_logger [] L) ''distributed.core'' < INFO
      then [''distributed.core''] else []) @
     (if getEffectiveLevel (quiet_logger ''.core'' (quiet_logger [] L)) ''distributed.comm'' < INFO
      then [''distributed.comm''] else []) @
     (if getEffectiveLevel (quiet_logger ''.comm'' (quiet_logger ''.core'' (quiet_logger [] L)))
           ''distributed.client'' < INFO
      then [''distributed.client''] else []) @
     (if getEffectiveLevel (quiet_logger ''.client'' (quiet_logger ''.comm''
           (quiet_logger ''.core'' (quiet_logger [] L)))) ''distributed.scheduler'' < INFO
      then [''distributed.scheduler''] else [])"
proof -
  have drop_app: "drop (length xs) ys = zs" if "ys = xs @ zs"
    for xs ys zs :: "(string \<times> int) list"
    using that by simp
  show ?thesis
    unfolding written_by_setup_def setup_unfold
    by (simp only: quiet_calls append_assoc drop_app [OF refl] map_append map_fst_if
          append.simps)
qed

lemma setup_not_written:
  assumes "name \<in> set distributed_loggers" and "INFO \<le> getEffectiveLevel L name"
  shows "name \<notin> set (written_by_setup L)"
proof -
  have s: "\<not> getEffectiveLevel L' name < INFO"
    if "getEffectiveLevel L' name = getEffectiveLevel L name" for L'
    using that assms(2) by simp
  note k = quiet_stable(1) [OF _ assms(1)]
  have 0: "\<not> getEffectiveLevel L name < INFO" by (rule s) simp
  have 1: "\<not> getEffectiveLevel (quiet_logger [] L) name < INFO"
    by (rule s) (simp add: k assms in_components)
  have 2: "\<not> getEffectiveLevel (quiet_logger ''.core'' (quiet_logger [] L)) name < INFO"
    by (rule s) (simp add: k assms in_components)
  have 3: "\<not> getEffectiveLevel (quiet_logger ''.comm'' (quiet_logger ''.core''
              (quiet_logger [] L))) name < INFO"
    by (rule s) (simp add: k assms in_components)
  have 4: "\<not> getEffectiveLevel (quiet_logger ''.client'' (quiet_logger ''.comm''
              (quiet_logger ''.core'' (quiet_logger [] L)))) name < INFO"
    by (rule s) (simp add: k assms in_components)
  show ?thesis
    unfolding setup_written using 0 1 2 3 4 by (auto split: if_splits)
qed

text \<open>What the cell leaves alone in any case.\<close>

lemma setup_frame:
  "root_level (logging_setup L) = root_level L"
  "disable (logging_setup L) = disable L"
  "disabled (logging_setup L) = disabled L"
  "name \<notin> set distributed_loggers \<Longrightarrow> level (logging_setup L) name = level L name"
  unfolding setup_unfold
  by (simp_all add: quiet_root quiet_disable quiet_level_other names_cases)

lemma setup_calls:
  "setLevel_by_setup L =
     (if getEffectiveLevel L ''distributed'' < INFO then [(''distributed'', INFO)] else []) @
     (if getEffectiveLevel (quiet_logger [] L) ''distributed.core'' < INFO
      then [(''distributed.core'', INFO)] else []) @
     (if getEffectiveLevel (quiet_logger ''.core'' (quiet_logger [] L)) ''distributed.comm'' < INFO
      then [(''distributed.comm'', INFO)] else []) @
     (if getEffectiveLevel (quiet_logger ''.comm'' (quiet_logger ''.core'' (quiet_logger [] L)))
           ''distributed.client'' < INFO
      then [(''distributed.client'', INFO)] else []) @
     (if getEffectiveLevel (quiet_logger ''.client'' (quiet_logger ''.comm''
           (quiet_logger ''.core'' (quiet_logger [] L)))) ''distributed.scheduler'' < INFO
      then [(''distributed.scheduler'', INFO)] else [])"
proof -
  have drop_app: "drop (length xs) ys = zs" if "ys = xs @ zs"
    for xs ys zs :: "(string \<times> int) list"
    using that by simp
  show ?thesis
    unfolding setLevel_by_setup_def setup_unfold
    by (simp only: quiet_calls append_assoc drop_app [OF refl] append.simps)
qed

lemma setup_calls_own:
  assumes "x \<in> set (setLevel_by_setup L)"
  shows "fst x \<in> set distributed_loggers \<and> snd x = INFO"
  using assms unfolding setup_calls by (auto simp add: in_names split: if_splits)

lemma writes_of_setup:
  "list_all own_write (map (\<lambda>x. Set_level (fst x) (snd x)) (setLevel_by_setup L))"
  using setup_calls_own [of _ L] by (auto simp add: list_all_iff own_write_def)

lemma no_attr_of_setup:
  "Set_attr a v \<notin> set (map (\<lambda>x. Set_level (fst x) (snd x)) xs)"
  by auto

section \<open>The whole notebook\<close>

lemmas cell_defs = cell_visualization_imports_def cell_cluster_def cell_logging_def
  cell_scale_up_def cell_client_def cell_read_parquet_def cell_persist_def cell_len_def
  cell_cmap_def cell_points_def cell_datashade_def cell_close_def

lemmas stmt_defs = call_stmt_def invoke_def with_var_def with_name_def time_magic_def
  import_module_def drop_result_def Let_def

lemmas script_defs = script_primary_def script_fallback_def script_head_def script_tail_def
  primary_read_def fallback_read_def worker_template_def primary_path_def fallback_path_def

subsection \<open>Extending a history\<close>

lemma caught_followed_last:
  assumes "caught_followed h" and "h \<noteq> []"
  shows "\<not> caught (last h)"
  using assms
proof (induction h)
  case Nil
  then show ?case by simp
next
  case (Cons y h)
  then show ?case by (cases h) (auto simp add: caught_def split: sum.splits)
qed

lemma caught_followed_append:
  assumes "caught_followed h"
  shows "caught_followed (h @ ys) = caught_followed ys"
  using assms
proof (induction h)
  case Nil
  then show ?case by simp
next
  case (Cons y h)
  show ?case
  proof (cases h)
    case Nil
    with Cons.prems show ?thesis by (cases ys) (auto split: sum.splits)
  next
    case (Cons z h')
    with Cons.prems Cons.IH show ?thesis by (auto split: sum.splits)
  qed
qed

lemma shown_append: "shown tb (h @ h') = (shown tb h \<and> shown tb h')"
  by (simp add: shown_def)

lemma shown_more: "shown tb h \<Longrightarrow> shown (tb @ [e]) h"
  by (auto simp add: shown_def list_all_iff split: sum.splits)

lemma wired_append:
  assumes "wired h"
  shows "wired (h @ h') =
     list_all
       (\<lambda>x. case fst x of
              Cluster_scale_up c n \<Rightarrow>
                (KubeCluster_from_yaml worker_template, Inr c) \<in> set h \<union> set h'
            | _ \<Rightarrow> True) h'"
  using assms by (auto simp add: wired_def list_all_iff split: call.splits)

lemma persisted_append: "persisted (h @ h') = (persisted h \<or> persisted h')"
  by (simp add: persisted_def)

lemma exec_Cons_cases:
  assumes "exec (c # cs) s = (r, s')"
  shows "(\<exists>e. c s = (Some e, s') \<and> r = Some e) \<or> (\<exists>s1. c s = (None, s1) \<and> exec cs s1 = (r, s'))"
  using assms by (auto split: prod.splits option.splits)

lemma shown_simps:
  "shown tb [] = True"
  "shown tb (x # h) =
     ((case snd x of Inr v \<Rightarrow> True | Inl e \<Rightarrow> timed (fst x) \<longrightarrow> e \<in> set tb) \<and> shown tb h)"
  by (simp_all add: shown_def)

lemma persisted_simps:
  "persisted [] = False"
  "persisted (x # h) =
     ((case fst x of
         Client_persist c d \<Rightarrow> (case snd x of Inr v \<Rightarrow> True | Inl e \<Rightarrow> False)
       | _ \<Rightarrow> False) \<or> persisted h)"
  by (simp_all add: persisted_def)

lemma erased_simps:
  "erased [] = []"
  "erased (x # h) = erase (fst x) # erased h"
  "erased (h @ h') = erased h @ erased h'"
  by (simp_all add: erased_def)

lemma shape_erased:
  "shape r h =
     ((prefix (erased h) script_primary \<or> prefix (erased h) script_fallback) \<and>
      (r = None \<longrightarrow> erased h = script_primary \<or> erased h = script_fallback))"
  by (simp add: shape_def erased_def)

lemmas history_simps = caught_followed_append butlast_append last_append shown_append shown_more
  wired_append persisted_append caught_def handled_def timed_def passed_def erased_simps
  shown_simps persisted_simps

lemmas between_defs = between_def bound_after_def final_def shape_erased outcomes_def frame_def
  own_write_def shade_cmap_attr_def

lemma writes_of_setup_comp:
  "list_all (own_write \<circ> (\<lambda>x. Set_level (fst x) (snd x))) (setLevel_by_setup L)"
  using writes_of_setup [of L] by (simp add: list.pred_map)

lemma no_attr_of_setup_image:
  "Set_attr a v \<notin> (\<lambda>x. Set_level (fst x) (snd x)) ` A"
  by auto

lemma list_all_butlast: "list_all P h \<Longrightarrow> list_all P (butlast h)"
  by (auto simp add: list_all_iff dest: in_set_butlastD)

lemma with_var_bound: "x s \<noteq> None \<Longrightarrow> with_var x k s = k (the (x s)) s"
  by (auto simp add: with_var_def)

lemmas step_simps = call_stmt_def invoke_def with_var_bound with_name_def time_magic_def
  import_module_def drop_result_def Let_def between_defs history_simps erase_def script_defs
  writes_of_setup writes_of_setup_comp no_attr_of_setup no_attr_of_setup_image

lemma exec_chain:
  assumes "case c s of (r1, s1) \<Rightarrow> (r1 = None \<and> Q s1) \<or> (r1 \<noteq> None \<and> final r1 cmap s1)"
    and "\<And>s1. Q s1 \<Longrightarrow> (case exec cs s1 of (r, s') \<Rightarrow> final r cmap s')"
  shows "case exec (c # cs) s of (r, s') \<Rightarrow> final r cmap s'"
proof (cases "c s")
  case (Pair r1 s1)
  show ?thesis
  proof (cases r1)
    case None
    with Pair assms(1) have "Q s1" by simp
    from assms(2) [OF this] Pair None show ?thesis by simp
  next
    case (Some e)
    with Pair assms(1) show ?thesis by simp
  qed
qed


subsection \<open>Cell by cell\<close>

lemma cell1:
  assumes "between 0 [] cmap s"
  shows "case cell_visualization_imports w s of (r, s') \<Rightarrow>
     (r = None \<and> between 1 (take 2 script_head) cmap s') \<or> (r \<noteq> None \<and> final r cmap s')"
  using assms
  by (simp add: cell_visualization_imports_def step_simps split: sum.splits)

lemma cell2:
  assumes "between 1 (take 2 script_head) cmap s"
  shows "case cell_cluster w s of (r, s') \<Rightarrow>
     (r = None \<and> between 2 (take 7 script_head) cmap s') \<or> (r \<noteq> None \<and> final r cmap s')"
  using assms
  by (simp add: cell_cluster_def step_simps split: sum.splits)

lemma cell3:
  assumes "between 2 (take 7 script_head) cmap s"
  shows "case cell_logging w s of (r, s') \<Rightarrow>
     (r = None \<and> between 3 (take 8 script_head) cmap s') \<or> (r \<noteq> None \<and> final r cmap s')"
  using assms
  by (simp add: cell_logging_def step_simps split: sum.splits)

lemma cell4:
  assumes "between 3 (take 8 script_head) cmap s"
  shows "case cell_scale_up w s of (r, s') \<Rightarrow>
     (r = None \<and> between 4 (take 10 script_head) cmap s') \<or> (r \<noteq> None \<and> final r cmap s')"
  using assms
  by (simp add: cell_scale_up_def step_simps split: sum.splits)

lemma cell5:
  assumes "between 4 (take 10 script_head) cmap s"
  shows "case cell_client s of (r, s') \<Rightarrow>
     (r = None \<and> between 5 (take 10 script_head) cmap s') \<or> (r \<noteq> None \<and> final r cmap s')"
  using assms
  by (simp add: cell_client_def step_simps split: sum.splits)

lemma cell6:
  assumes "between 5 (take 10 script_head) cmap s"
  shows "case cell_read_parquet w s of (r, s') \<Rightarrow>
     (r = None \<and> (between 6 script_head cmap s' \<or>
                  between 6 (script_head @ [fallback_read]) cmap s')) \<or>
     (r \<noteq> None \<and> final r cmap s')"
  using assms
  by (simp add: cell_read_parquet_def step_simps split: sum.splits exn.splits)

lemma cell7:
  assumes "X = script_head \<or> X = script_head @ [fallback_read]"
    and "between 6 X cmap s"
  shows "case cell_persist w s of (r, s') \<Rightarrow>
     (r = None \<and> between 7 (X @ take 1 script_tail) cmap s') \<or> (r \<noteq> None \<and> final r cmap s')"
  using assms
  by (elim disjE) (simp_all add: cell_persist_def step_simps split: sum.splits)

lemma cell8:
  assumes "X = script_head \<or> X = script_head @ [fallback_read]"
    and "between 7 (X @ take 1 script_tail) cmap s"
  shows "case cell_len w s of (r, s') \<Rightarrow>
     (r = None \<and> between 8 (X @ take 2 script_tail) cmap s') \<or> (r \<noteq> None \<and> final r cmap s')"
  using assms
  by (elim disjE) (simp_all add: cell_len_def step_simps split: sum.splits)

lemma cell9:
  assumes "X = script_head \<or> X = script_head @ [fallback_read]"
    and "between 8 (X @ take 2 script_tail) cmap s"
  shows "case cell_cmap w s of (r, s') \<Rightarrow>
     (r = None \<and> between 9 (X @ take 3 script_tail) cmap s') \<or> (r \<noteq> None \<and> final r cmap s')"
  using assms
  by (elim disjE) (simp_all add: cell_cmap_def step_simps split: sum.splits)

lemma cell10:
  assumes "X = script_head \<or> X = script_head @ [fallback_read]"
    and "between 9 (X @ take 3 script_tail) cmap s"
  shows "case cell_points w s of (r, s') \<Rightarrow>
     (r = None \<and> between 10 (X @ take 4 script_tail) cmap s') \<or> (r \<noteq> None \<and> final r cmap s')"
  using assms
  by (elim disjE) (simp_all add: cell_points_def step_simps split: sum.splits)

lemma cell11:
  assumes "X = script_head \<or> X = script_head @ [fallback_read]"
    and "between 10 (X @ take 4 script_tail) cmap s"
  shows "case cell_datashade w s of (r, s') \<Rightarrow>
     (r = None \<and> between 11 (X @ take 5 script_tail) cmap s') \<or> (r \<noteq> None \<and> final r cmap s')"
  using assms
  by (elim disjE) (simp_all add: cell_datashade_def step_simps split: sum.splits)

lemma cell12:
  assumes "X = script_head \<or> X = script_head @ [fallback_read]"
    and "between 11 (X @ take 5 script_tail) cmap s"
  shows "case cell_close w s of (r, s') \<Rightarrow>
     (r = None \<and> between 12 (X @ script_tail) cmap s') \<or> (r \<noteq> None \<and> final r cmap s')"
  using assms
  by (elim disjE) (simp_all add: cell_close_def step_simps split: sum.splits)

lemma after_all:
  assumes "X = script_head \<or> X = script_head @ [fallback_read]"
    and "between 12 (X @ script_tail) cmap s"
  shows "final None cmap s"
  using assms
  by (elim disjE)
    (simp_all add: between_defs list_all_butlast script_primary_def script_fallback_def)

subsection \<open>The cells in sequence\<close>

lemma rest12:
  assumes "X = script_head \<or> X = script_head @ [fallback_read]"
    and "between 12 (X @ script_tail) cmap s"
  shows "case exec [] s of (r, s') \<Rightarrow> final r cmap s'"
  using after_all [OF assms] by simp

lemma rest11:
  assumes "X = script_head \<or> X = script_head @ [fallback_read]"
    and "between 11 (X @ take 5 script_tail) cmap s"
  shows "case exec [cell_close w] s of (r, s') \<Rightarrow> final r cmap s'"
  by (rule exec_chain [where Q = "between 12 (X @ script_tail) cmap"],
      rule cell12 [OF assms], rule rest12 [OF assms(1)], assumption)

lemma rest10:
  assumes "X = script_head \<or> X = script_head @ [fallback_read]"
    and "between 10 (X @ take 4 script_tail) cmap s"
  shows "case exec [cell_datashade w, cell_close w] s of (r, s') \<Rightarrow> final r cmap s'"
  by (rule exec_chain [where Q = "between 11 (X @ take 5 script_tail) cmap"],
      rule cell11 [OF assms], rule rest11 [OF assms(1)], assumption)

lemma rest9:
  assumes "X = script_head \<or> X = script_head @ [fallback_read]"
    and "between 9 (X @ take 3 script_tail) cmap s"
  shows "case exec [cell_points w, cell_datashade w, cell_close w] s of (r, s') \<Rightarrow> final r cmap s'"
  by (rule exec_chain [where Q = "between 10 (X @ take 4 script_tail) cmap"],
      rule cell10 [OF assms], rule rest10 [OF assms(1)], assumption)

lemma rest8:
  assumes "X = script_head \<or> X = script_head @ [fallback_read]"
    and "between 8 (X @ take 2 script_tail) cmap s"
  shows "case exec [cell_cmap w, cell_points w, cell_datashade w, cell_close w] s of (r, s') \<Rightarrow> final r cmap s'"
  by (rule exec_chain [where Q = "between 9 (X @ take 3 script_tail) cmap"],
      rule cell9 [OF assms], rule rest9 [OF assms(1)], assumption)

lemma rest7:
  assumes "X = script_head \<or> X = script_head @ [fallback_read]"
    and "between 7 (X @ take 1 script_tail) cmap s"
  shows "case exec [cell_len w, cell_cmap w, cell_points w, cell_datashade w, cell_close w] s of (r, s') \<Rightarrow> final r cmap s'"
  by (rule exec_chain [where Q = "between 8 (X @ take 2 script_tail) cmap"],
      rule cell8 [OF assms], rule rest8 [OF assms(1)], assumption)

lemma rest6:
  assumes "X = script_head \<or> X = script_head @ [fallback_read]"
    and "between 6 X cmap s"
  shows "case exec [cell_persist w, cell_len w, cell_cmap w, cell_points w, cell_datashade w, cell_close w] s of (r, s') \<Rightarrow> final r cmap s'"
  by (rule exec_chain [where Q = "between 7 (X @ take 1 script_tail) cmap"],
      rule cell7 [OF assms], rule rest7 [OF assms(1)], assumption)

lemma rest5:
  assumes "between 5 (take 10 script_head) cmap s"
  shows "case exec [cell_read_parquet w, cell_persist w, cell_len w, cell_cmap w, cell_points w, cell_datashade w, cell_close w] s of (r, s') \<Rightarrow> final r cmap s'"
proof (rule exec_chain [where Q = "\<lambda>s1. between 6 script_head cmap s1 \<or>
    between 6 (script_head @ [fallback_read]) cmap s1"])
  show "case cell_read_parquet w s of (r, s') \<Rightarrow>
     (r = None \<and> (between 6 script_head cmap s' \<or>
                  between 6 (script_head @ [fallback_read]) cmap s')) \<or>
     (r \<noteq> None \<and> final r cmap s')"
    by (rule cell6 [OF assms])
next
  fix s1 :: "'a state"
  assume "between 6 script_head cmap s1 \<or> between 6 (script_head @ [fallback_read]) cmap s1"
  then show "case exec [cell_persist w, cell_len w, cell_cmap w, cell_points w, cell_datashade w, cell_close w] s1 of (r, s') \<Rightarrow> final r cmap s'"
  proof
    assume "between 6 script_head cmap s1"
    then show ?thesis by (rule rest6 [OF disjI1 [OF refl]])
  next
    assume "between 6 (script_head @ [fallback_read]) cmap s1"
    then show ?thesis by (rule rest6 [OF disjI2 [OF refl]])
  qed
qed

lemma rest4:
  assumes "between 4 (take 10 script_head) cmap s"
  shows "case exec [cell_client, cell_read_parquet w, cell_persist w, cell_len w, cell_cmap w, cell_points w, cell_datashade w, cell_close w] s of (r, s') \<Rightarrow> final r cmap s'"
  by (rule exec_chain [where Q = "between 5 (take 10 script_head) cmap"],
      rule cell5 [OF assms], rule rest5, assumption)

lemma rest3:
  assumes "between 3 (take 8 script_head) cmap s"
  shows "case exec [cell_scale_up w, cell_client, cell_read_parquet w, cell_persist w, cell_len w, cell_cmap w, cell_points w, cell_datashade w, cell_close w] s of (r, s') \<Rightarrow> final r cmap s'"
  by (rule exec_chain [where Q = "between 4 (take 10 script_head) cmap"],
      rule cell4 [OF assms], rule rest4, assumption)

lemma rest2:
  assumes "between 2 (take 7 script_head) cmap s"
  shows "case exec [cell_logging w, cell_scale_up w, cell_client, cell_read_parquet w, cell_persist w, cell_len w, cell_cmap w, cell_points w, cell_datashade w, cell_close w] s of (r, s') \<Rightarrow> final r cmap s'"
  by (rule exec_chain [where Q = "between 3 (take 8 script_head) cmap"],
      rule cell3 [OF assms], rule rest3, assumption)

lemma rest1:
  assumes "between 1 (take 2 script_head) cmap s"
  shows "case exec [cell_cluster w, cell_logging w, cell_scale_up w, cell_client, cell_read_parquet w, cell_persist w, cell_len w, cell_cmap w, cell_points w, cell_datashade w, cell_close w] s of (r, s') \<Rightarrow> final r cmap s'"
  by (rule exec_chain [where Q = "between 2 (take 7 script_head) cmap"],
      rule cell2 [OF assms], rule rest2, assumption)

lemma rest0:
  assumes "between 0 [] cmap s"
  shows "case exec [cell_visualization_imports w, cell_cluster w, cell_logging w, cell_scale_up w, cell_client, cell_read_parquet w, cell_persist w, cell_len w, cell_cmap w, cell_points w, cell_datashade w, cell_close w] s of (r, s') \<Rightarrow> final r cmap s'"
  by (rule exec_chain [where Q = "between 1 (take 2 script_head) cmap"],
      rule cell1 [OF assms], rule rest1, assumption)

lemma between_fresh: "between 0 [] cmap (fresh L cmap)"
  by (simp add: between_def bound_after_def fresh_def erased_simps shown_simps persisted_simps
        wired_def)

text \<open>Every execution, against every environment.\<close>

lemma run_summary:
  "case run w L cmap of (r, s) \<Rightarrow>
     shape r (history s) \<and> outcomes r s \<and> wired (history s) \<and> frame cmap s"
  using rest0 [OF between_fresh, of cmap w L]
  by (simp add: run_def notebook_def final_def)

subsection \<open>What every execution satisfies\<close>

lemma run_facts:
  "shape (fst (run w L cmap)) (history (snd (run w L cmap)))"
  "outcomes (fst (run w L cmap)) (snd (run w L cmap))"
  "wired (history (snd (run w L cmap)))"
  "frame cmap (snd (run w L cmap))"
  using run_summary [where w = w and L = L and cmap = cmap]
  by (simp_all add: case_prod_beta)

lemma calls_prefix:
  "prefix (map erase (calls (snd (run w L cmap)))) script_primary \<or>
   prefix (map erase (calls (snd (run w L cmap)))) script_fallback"
  using run_facts(1) [of w L cmap] by (simp add: shape_def calls_def)

lemma set_script_primary: "set script_primary \<subseteq> set script_fallback"
  by (auto simp add: script_primary_def script_fallback_def)

lemma call_in_script:
  assumes "c \<in> set (calls (snd (run w L cmap)))"
  shows "erase c \<in> set script_fallback"
proof -
  from assms have "erase c \<in> set (map erase (calls (snd (run w L cmap))))" by simp
  moreover have "set (map erase (calls (snd (run w L cmap)))) \<subseteq> set script_fallback"
    using calls_prefix [of w L cmap] set_script_primary
    by (blast dest: set_mono_prefix)
  ultimately show ?thesis by blast
qed

lemma read_in_script:
  "Read_parquet p cols idx eng \<in> set script_fallback \<longleftrightarrow>
     (p = primary_path \<or> p = fallback_path) \<and> cols = [''l'', ''b''] \<and> idx = [] \<and>
     eng = ''fastparquet''"
  by (auto simp add: script_fallback_def script_head_def script_tail_def primary_read_def
        fallback_read_def)

lemma cell_read_parquet_cases:
  assumes "cell_read_parquet w s = (r, s')"
  shows "(r = Some NameError \<and> s' = s) \<or>
         (\<exists>d. r = None \<and> history s' = history s @ [(primary_read, Inr d)] \<and>
              df s' = Some d) \<or>
         (\<exists>e. r = Some e \<and> history s' = history s @ [(primary_read, Inl e)]) \<or>
         (\<exists>d. r = None \<and>
              history s' = history s @
                [(primary_read, Inl FileNotFoundError), (fallback_read, Inr d)] \<and>
              df s' = Some d) \<or>
         (\<exists>e. r = Some e \<and>
              history s' = history s @
                [(primary_read, Inl FileNotFoundError), (fallback_read, Inl e)])"
proof (cases "''dd'' \<in> names s")
  case False
  with assms show ?thesis by (auto simp add: cell_read_parquet_def with_name_def)
next
  case dd: True
  show ?thesis
  proof (cases "respond w (history s) primary_read")
    case (Inr d)
    with dd assms show ?thesis
      by (auto simp add: cell_read_parquet_def with_name_def invoke_def Let_def
            primary_read_def primary_path_def)
  next
    case first: (Inl e)
    show ?thesis
    proof (cases "e = FileNotFoundError")
      case False
      with dd first assms show ?thesis
        by (cases e)
          (auto simp add: cell_read_parquet_def with_name_def invoke_def Let_def
            primary_read_def primary_path_def)
    next
      case True
      show ?thesis
      proof (cases "respond w (history s @ [(primary_read, Inl FileNotFoundError)])
          fallback_read")
        case (Inr d)
        with dd first True assms show ?thesis
          by (auto simp add: cell_read_parquet_def with_name_def invoke_def Let_def
                primary_read_def fallback_read_def primary_path_def fallback_path_def)
      next
        case (Inl e')
        with dd first True assms show ?thesis
          by (auto simp add: cell_read_parquet_def with_name_def invoke_def Let_def
                primary_read_def fallback_read_def primary_path_def fallback_path_def)
      qed
    qed
  qed
qed

lemma read_calls_shape:
  "\<exists>p. (p = primary_path \<or> p = fallback_path) \<and>
       (primary_read :: 'v call) = Read_parquet p [''l'', ''b''] [] ''fastparquet''"
  "\<exists>p. (p = primary_path \<or> p = fallback_path) \<and>
       (fallback_read :: 'v call) = Read_parquet p [''l'', ''b''] [] ''fastparquet''"
  by (simp_all add: primary_read_def fallback_read_def)

lemma read_paths_erase: "read_paths (map erase cs) = read_paths cs"
  by (induction cs) (auto simp add: read_paths_def map_filter_simps erase_def split: call.splits)

lemma read_paths_append: "read_paths (xs @ ys) = read_paths xs @ read_paths ys"
  by (simp add: read_paths_def map_filter_def)

lemma read_paths_scripts:
  "read_paths script_primary = [primary_path]"
  "read_paths script_fallback = [primary_path, fallback_path]"
  by (simp_all add: read_paths_def map_filter_simps script_primary_def script_fallback_def
        script_head_def script_tail_def primary_read_def fallback_read_def)

lemma read_paths_run:
  "prefix (read_paths (calls (snd (run w L cmap)))) [primary_path, fallback_path]"
proof -
  have mono: "prefix (read_paths xs) (read_paths ys)" if "prefix xs ys"
    for xs ys :: "unit call list"
    using that by (auto simp add: prefix_def read_paths_append)
  have "prefix (read_paths (map erase (calls (snd (run w L cmap))))) [primary_path] \<or>
        prefix (read_paths (map erase (calls (snd (run w L cmap))))) [primary_path, fallback_path]"
    using calls_prefix [of w L cmap] mono read_paths_scripts by metis
  moreover have "prefix [primary_path] [primary_path, fallback_path]" by simp
  ultimately show ?thesis
    unfolding read_paths_erase by (auto intro: prefix_order.trans)
qed

lemma yaml_in_script:
  "KubeCluster_from_yaml p \<in> set script_fallback \<longleftrightarrow> p = worker_template"
  by (auto simp add: script_fallback_def script_head_def script_tail_def primary_read_def
        fallback_read_def)

lemma scale_in_script:
  "Cluster_scale_up u n \<in> set script_fallback \<longleftrightarrow> n = 15"
  by (auto simp add: script_fallback_def script_head_def script_tail_def primary_read_def
        fallback_read_def)

lemma scale_wired:
  assumes "Cluster_scale_up c n \<in> set (calls (snd (run w L cmap)))"
  shows "(KubeCluster_from_yaml worker_template, Inr c) \<in> set (history (snd (run w L cmap)))"
proof -
  from assms obtain x where x: "x \<in> set (history (snd (run w L cmap)))"
    and fx: "fst x = Cluster_scale_up c n"
    by (auto simp add: calls_def)
  from run_facts(3) [of w L cmap] x fx show ?thesis
    by (auto simp add: wired_def list_all_iff)
qed

lemma complete_calls:
  assumes "fst (run w L cmap) = None"
  shows "map erase (calls (snd (run w L cmap))) = script_primary \<or>
         map erase (calls (snd (run w L cmap))) = script_fallback"
  using run_facts(1) [of w L cmap] assms by (simp add: shape_def calls_def)

lemma scale_in_scripts:
  "Cluster_scale_up () 15 \<in> set script_primary" "Cluster_scale_up () 15 \<in> set script_fallback"
  by (simp_all add: script_primary_def script_fallback_def script_head_def)








lemma caught_followed_nth:
  assumes "caught_followed h" and "i < length h" and "snd (h ! i) = Inl e"
    and "handled (fst (h ! i)) e"
  shows "Suc i < length h \<and> fst (h ! Suc i) = fallback_read"
  using assms
proof (induction h arbitrary: i)
  case Nil
  then show ?case by simp
next
  case (Cons x h)
  show ?case
  proof (cases i)
    case 0
    with Cons.prems show ?thesis by (cases h) auto
  next
    case (Suc j)
    with Cons.prems Cons.IH [of j] show ?thesis by simp
  qed
qed

lemma shown_nth:
  assumes "shown tb h" and "i < length h" and "snd (h ! i) = Inl e" and "timed (fst (h ! i))"
  shows "e \<in> set tb"
proof -
  from assms(2) have "h ! i \<in> set h" by (rule nth_mem)
  with assms(1,3,4) show ?thesis by (auto simp add: shown_def list_all_iff)
qed

lemma unhandled_is_last:
  assumes "outcomes r s" and "i < length (history s)" and "snd (history s ! i) = Inl e"
    and "\<not> handled (fst (history s ! i)) e" and "\<not> timed (fst (history s ! i))"
  shows "r = Some e \<and> Suc i = length (history s)"
proof -
  let ?h = "history s"
  from assms(3,4,5) have np: "\<not> passed (?h ! i)" by (simp add: passed_def)
  have last_i: "Suc i = length ?h"
  proof (rule ccontr)
    assume "Suc i \<noteq> length ?h"
    with assms(2) have b: "i < length (butlast ?h)" by simp
    then have "butlast ?h ! i \<in> set (butlast ?h)" by (rule nth_mem)
    moreover from b have "butlast ?h ! i = ?h ! i" by (simp add: nth_butlast)
    ultimately have "?h ! i \<in> set (butlast ?h)" by simp
    with assms(1) np show False by (auto simp add: outcomes_def list_all_iff)
  qed
  from assms(2) have ne: "?h \<noteq> []" by auto
  then have "last ?h = ?h ! (length ?h - 1)" by (rule last_conv_nth)
  moreover from last_i have "length ?h - 1 = i" by simp
  ultimately have l: "?h \<noteq> []" "last ?h = ?h ! i" using ne by simp_all
  from assms(2) have "?h ! i \<in> set ?h" by (rule nth_mem)
  with assms(1) np have "r \<noteq> None"
    by (cases r) (auto simp add: outcomes_def list_all_iff)
  then obtain e' where "r = Some e'" by blast
  with assms(1,3) l have "r = Some e" by (simp add: outcomes_def)
  with last_i show ?thesis by simp
qed

text \<open>The last call of an execution is not one under \<^verbatim>\<open>%%time\<close>.\<close>

lemma timed_erase: "timed (erase c) = timed c"
  by (cases c) (simp_all add: timed_def erase_def)

lemma last_not_timed:
  assumes "history (snd (run w L cmap)) \<noteq> []"
  shows "\<not> timed (fst (last (history (snd (run w L cmap)))))"
proof (cases "fst (run w L cmap)")
  case (Some e)
  with run_facts(2) [of w L cmap] show ?thesis by (simp add: outcomes_def)
next
  case None
  let ?h = "history (snd (run w L cmap))"
  have "last (map (erase \<circ> fst) ?h) = Cluster_close ()"
    using run_facts(1) [of w L cmap] None
    by (auto simp add: shape_def script_primary_def script_fallback_def script_tail_def)
  with assms have "erase (fst (last ?h)) = Cluster_close ()"
    by (simp add: last_map)
  then have "timed (erase (fst (last ?h))) = False" by (simp add: timed_def)
  then show ?thesis by (simp add: timed_erase)
qed

lemma timed_is_followed:
  assumes "i < length (history (snd (run w L cmap)))"
    and "timed (fst (history (snd (run w L cmap)) ! i))"
  shows "Suc i < length (history (snd (run w L cmap)))"
proof (rule ccontr)
  let ?h = "history (snd (run w L cmap))"
  assume "\<not> Suc i < length ?h"
  with assms(1) have i: "i = length ?h - 1" and ne: "?h \<noteq> []" by auto
  from ne have "last ?h = ?h ! (length ?h - 1)" by (rule last_conv_nth)
  with i assms(2) have "timed (fst (last ?h))" by simp
  with last_not_timed [OF ne] show False by simp
qed


lemma distinct_scripts: "distinct script_primary" "distinct script_fallback"
  by (simp_all add: script_defs)

lemma distinct_calls: "distinct (calls (snd (run w L cmap)))"
proof -
  from calls_prefix [of w L cmap]
  have "\<exists>S zs. distinct S \<and> S = map erase (calls (snd (run w L cmap))) @ zs"
    unfolding prefix_def using distinct_scripts by blast
  then obtain S zs where "distinct S"
    and "S = map erase (calls (snd (run w L cmap))) @ zs" by blast
  then have "distinct (map erase (calls (snd (run w L cmap))))"
    by simp
  then show ?thesis by (simp add: distinct_map)
qed

subsection \<open>Some executions\<close>

lemma eff_plain:
  "name \<in> set distributed_loggers \<Longrightarrow> getEffectiveLevel plain_logging name = 30"
  by (auto simp add: names_cases getEffectiveLevel_def plain_logging_def ancestors_distributed)

lemma setup_plain: "setLevel_by_setup plain_logging = []" "logging_setup plain_logging = plain_logging"
proof -
  have q: "quiet_logger c plain_logging = plain_logging" if "c \<in> set components" for c
  proof (rule quiet_id)
    from that have "''distributed'' @ c \<in> set distributed_loggers"
      by (simp add: distributed_loggers_def)
    then show "INFO \<le> getEffectiveLevel plain_logging (''distributed'' @ c)"
      by (simp add: eff_plain INFO_def)
  qed
  show "logging_setup plain_logging = plain_logging"
    by (simp add: setup_unfold q in_components)
  then show "setLevel_by_setup plain_logging = []"
    by (simp add: setLevel_by_setup_def)
qed

lemma eff_children_of:
  "getEffectiveLevel L ''distributed.core'' =
     (if level L ''distributed.core'' \<noteq> 0 then level L ''distributed.core''
      else getEffectiveLevel L ''distributed'')"
  "getEffectiveLevel L ''distributed.comm'' =
     (if level L ''distributed.comm'' \<noteq> 0 then level L ''distributed.comm''
      else getEffectiveLevel L ''distributed'')"
  "getEffectiveLevel L ''distributed.client'' =
     (if level L ''distributed.client'' \<noteq> 0 then level L ''distributed.client''
      else getEffectiveLevel L ''distributed'')"
  "getEffectiveLevel L ''distributed.scheduler'' =
     (if level L ''distributed.scheduler'' \<noteq> 0 then level L ''distributed.scheduler''
      else getEffectiveLevel L ''distributed'')"
  by (simp_all add: eff_child)

lemma setup_debug:
  "setLevel_by_setup debug_logging = [(''distributed'', 20)]"
  "written_by_setup debug_logging = [''distributed'']"
  "getEffectiveLevel debug_logging ''distributed'' = 10"
  "getEffectiveLevel debug_logging ''distributed.comm'' = 30"
  "level debug_logging ''distributed.comm'' = 30"
  by (simp_all add: setup_calls setup_written eff_children_of eff_top quiet_level quiet_root
        debug_logging_def INFO_def)

lemma run_obliging:
  "fst (run obliging plain_logging fire_cmap) = None"
  "calls (snd (run obliging plain_logging fire_cmap)) =
     [Import ''holoviews'', Import ''holoviews.operation.datashader'',
      Import ''dask.distributed'', Import ''dask'', Import ''dask_kubernetes'', Import ''os'',
      KubeCluster_from_yaml worker_template, Import ''logging'',
      Cluster_scale_up 6 15, Client_new 6, primary_read,
      Client_persist 9 10, Df_len 11, Hv_extension [''bokeh'', ''matplotlib''],
      Hv_Points 11, Hd_datashade 14, Cluster_close 6]"
  "shade_cmap (snd (run obliging plain_logging fire_cmap)) = [''lightblue'', ''darkblue'']"
  by (simp_all add: run_def notebook_def fresh_def cell_defs stmt_defs obliging_def calls_def
        script_defs)


lemma run_primary_missing:
  "fst (run primary_missing plain_logging fire_cmap) = None"
  "calls (snd (run primary_missing plain_logging fire_cmap)) =
     [Import ''holoviews'', Import ''holoviews.operation.datashader'',
      Import ''dask.distributed'', Import ''dask'', Import ''dask_kubernetes'', Import ''os'',
      KubeCluster_from_yaml worker_template, Import ''logging'',
      Cluster_scale_up 6 15, Client_new 6, primary_read, fallback_read,
      Client_persist 9 11, Df_len 12, Hv_extension [''bokeh'', ''matplotlib''],
      Hv_Points 12, Hd_datashade 15, Cluster_close 6]"
  by (simp_all add: run_def notebook_def fresh_def cell_defs stmt_defs primary_missing_def
        calls_def script_defs)

lemma run_persist_fails:
  "fst (run persist_fails plain_logging fire_cmap) = Some (OtherError ''TimeoutError'')"
  "history (snd (run persist_fails plain_logging fire_cmap)) =
     [(Import ''holoviews'', Inr 0), (Import ''holoviews.operation.datashader'', Inr 1),
      (Import ''dask.distributed'', Inr 2), (Import ''dask'', Inr 3),
      (Import ''dask_kubernetes'', Inr 4), (Import ''os'', Inr 5),
      (KubeCluster_from_yaml worker_template, Inr 6), (Import ''logging'', Inr 7),
      (Cluster_scale_up 6 15, Inr 8), (Client_new 6, Inr 9), (primary_read, Inr 10),
      (Client_persist 9 10, Inl (OtherError ''TimeoutError''))]"
  "shade_cmap (snd (run persist_fails plain_logging fire_cmap)) = fire_cmap"
  by (simp_all add: run_def notebook_def fresh_def cell_defs stmt_defs persist_fails_def
        calls_def script_defs)

lemma run_len_fails:
  "fst (run len_fails plain_logging fire_cmap) = None"
  "history (snd (run len_fails plain_logging fire_cmap)) =
     [(Import ''holoviews'', Inr 0), (Import ''holoviews.operation.datashader'', Inr 1),
      (Import ''dask.distributed'', Inr 2), (Import ''dask'', Inr 3),
      (Import ''dask_kubernetes'', Inr 4), (Import ''os'', Inr 5),
      (KubeCluster_from_yaml worker_template, Inr 6), (Import ''logging'', Inr 7),
      (Cluster_scale_up 6 15, Inr 8), (Client_new 6, Inr 9), (primary_read, Inr 10),
      (Client_persist 9 10, Inr 11), (Df_len 11, Inl (OtherError ''KilledWorker'')),
      (Hv_extension [''bokeh'', ''matplotlib''], Inr 13), (Hv_Points 11, Inr 14),
      (Hd_datashade 14, Inr 15), (Cluster_close 6, Inr 16)]"
  "tracebacks (snd (run len_fails plain_logging fire_cmap)) = [OtherError ''KilledWorker'']"
  by (simp_all add: run_def notebook_def fresh_def cell_defs stmt_defs len_fails_def
        calls_def script_defs)

lemma load_primary_missing:
  "fst (cell_read_parquet primary_missing
          ((fresh plain_logging fire_cmap)\<lparr>names := {''dd''}\<rparr>)) = None"
  "df (snd (cell_read_parquet primary_missing
          ((fresh plain_logging fire_cmap)\<lparr>names := {''dd''}\<rparr>))) = Some 1"
  "history (snd (cell_read_parquet primary_missing
          ((fresh plain_logging fire_cmap)\<lparr>names := {''dd''}\<rparr>))) =
     [(primary_read, Inl FileNotFoundError), (fallback_read, Inr 1)]"
  by (simp_all add: cell_read_parquet_def with_name_def invoke_def Let_def primary_missing_def
        fresh_def primary_read_def fallback_read_def primary_path_def fallback_path_def)

section \<open>The claims\<close>

subsection \<open>Loading the dataset\<close>

text \<open>
  C1.  Where the import of \<^verbatim>\<open>dask\<close> has bound \<^verbatim>\<open>dd\<close>: when the read of the primary path
  raises \<open>FileNotFoundError\<close> and the read of the fallback path returns a dataframe, the
  loading cell raises nothing, has made exactly these two reads, in this order, and binds
  \<^verbatim>\<open>df\<close> to the dataframe of the fallback path.
\<close>

theorem fallback_on_missing_primary:
  assumes "''dd'' \<in> names s"
    and "respond w (history s) primary_read = Inl FileNotFoundError"
    and "respond w (history s @ [(primary_read, Inl FileNotFoundError)]) fallback_read = Inr d"
  shows "fst (cell_read_parquet w s) = None \<and>
         df (snd (cell_read_parquet w s)) = Some d \<and>
         history (snd (cell_read_parquet w s)) =
           history s @ [(primary_read, Inl FileNotFoundError), (fallback_read, Inr d)]"
  using assms
  by (simp add: cell_read_parquet_def with_name_def invoke_def Let_def primary_read_def
        fallback_read_def primary_path_def fallback_path_def)

theorem fallback_on_missing_primary_witness:
  "''dd'' \<in> names ((fresh plain_logging fire_cmap :: nat state)\<lparr>names := {''dd''}\<rparr>) \<and>
   respond primary_missing
     (history ((fresh plain_logging fire_cmap)\<lparr>names := {''dd''}\<rparr>)) primary_read =
     Inl FileNotFoundError \<and>
   respond primary_missing
     (history ((fresh plain_logging fire_cmap)\<lparr>names := {''dd''}\<rparr>) @
        [(primary_read, Inl FileNotFoundError)]) fallback_read = Inr 1 \<and>
   fst (cell_read_parquet primary_missing
          ((fresh plain_logging fire_cmap)\<lparr>names := {''dd''}\<rparr>)) = None \<and>
   df (snd (cell_read_parquet primary_missing
          ((fresh plain_logging fire_cmap)\<lparr>names := {''dd''}\<rparr>))) = Some 1"
proof -
  let ?s = "(fresh plain_logging fire_cmap :: nat state)\<lparr>names := {''dd''}\<rparr>"
  have n: "''dd'' \<in> names ?s" by simp
  have p: "respond primary_missing (history ?s) primary_read = Inl FileNotFoundError"
    by (simp add: primary_missing_def primary_read_def)
  have f: "respond primary_missing (history ?s @ [(primary_read, Inl FileNotFoundError)])
      fallback_read = Inr 1"
    by (simp add: primary_missing_def fallback_read_def fresh_def primary_path_def
          fallback_path_def)
  from fallback_on_missing_primary [OF n p f] n p f show ?thesis by simp
qed

text \<open>
  C3.  In every execution, a dataset read that occurs selects the columns \<^verbatim>\<open>['l', 'b']\<close>,
  whatever its path.
\<close>

theorem reads_select_l_and_b:
  assumes "Read_parquet p cols idx eng \<in> set (calls (snd (run w L cmap)))"
  shows "cols = [''l'', ''b'']"
  using call_in_script [OF assms] by (simp add: erase_def read_in_script)

theorem reads_select_l_and_b_witness:
  "Read_parquet fallback_path [''l'', ''b''] [] ''fastparquet''
     \<in> set (calls (snd (run primary_missing plain_logging fire_cmap))) \<and>
   [''l'', ''b''] = [''l'', ''b'']"
  using reads_select_l_and_b [of fallback_path "[''l'', ''b'']" "[]" "''fastparquet''"
      primary_missing plain_logging fire_cmap]
  by (simp add: run_primary_missing fallback_read_def)

text \<open>
  C10.  Each read the loading cell issues is \<^verbatim>\<open>read_parquet\<close> of the primary or of the
  fallback path with the columns \<^verbatim>\<open>['l', 'b']\<close>, the index \<^verbatim>\<open>[]\<close> and the engine
  \<^verbatim>\<open>fastparquet\<close>: the two reads differ in the path only.  When the cell raises nothing,
  \<^verbatim>\<open>df\<close> is the dataframe that the last such read has returned.
\<close>

theorem reads_differ_only_in_path:
  assumes "cell_read_parquet w s = (r, s')"
  shows "(\<forall>x \<in> set (drop (length (history s)) (history s')).
            \<exists>p. (p = primary_path \<or> p = fallback_path) \<and>
                fst x = Read_parquet p [''l'', ''b''] [] ''fastparquet'') \<and>
         (r = None \<longrightarrow>
            (\<exists>p d. (p = primary_path \<or> p = fallback_path) \<and> df s' = Some d \<and>
                   last (history s') = (Read_parquet p [''l'', ''b''] [] ''fastparquet'', Inr d)))"
proof -
  have issued: "\<forall>x \<in> set (drop (length (history s)) (history s')).
      fst x = primary_read \<or> fst x = fallback_read"
    using cell_read_parquet_cases [OF assms] by (elim disjE exE conjE) simp_all
  have bound: "\<exists>d. df s' = Some d \<and>
      (last (history s') = (primary_read, Inr d) \<or> last (history s') = (fallback_read, Inr d))"
    if "r = None"
    using cell_read_parquet_cases [OF assms] that by (elim disjE exE conjE) simp_all
  show ?thesis
  proof (intro conjI ballI impI)
    fix x assume "x \<in> set (drop (length (history s)) (history s'))"
    with issued have "fst x = primary_read \<or> fst x = fallback_read" by blast
    then show "\<exists>p. (p = primary_path \<or> p = fallback_path) \<and>
                fst x = Read_parquet p [''l'', ''b''] [] ''fastparquet''"
      using read_calls_shape [where ?'v = 'a] by metis
  next
    assume "r = None"
    from bound [OF this] obtain d where d: "df s' = Some d"
      and l: "last (history s') = (primary_read, Inr d) \<or>
              last (history s') = (fallback_read, Inr d)" by blast
    from l show "\<exists>p d. (p = primary_path \<or> p = fallback_path) \<and> df s' = Some d \<and>
                   last (history s') = (Read_parquet p [''l'', ''b''] [] ''fastparquet'', Inr d)"
    proof
      assume "last (history s') = (primary_read, Inr d)"
      with d show ?thesis unfolding primary_read_def by blast
    next
      assume "last (history s') = (fallback_read, Inr d)"
      with d show ?thesis unfolding fallback_read_def by blast
    qed
  qed
qed

theorem reads_differ_only_in_path_witness:
  "cell_read_parquet primary_missing ((fresh plain_logging fire_cmap)\<lparr>names := {''dd''}\<rparr>) =
     (None, snd (cell_read_parquet primary_missing
                   ((fresh plain_logging fire_cmap)\<lparr>names := {''dd''}\<rparr>))) \<and>
   (\<exists>p d. (p = primary_path \<or> p = fallback_path) \<and> Some (1::nat) = Some d \<and>
        (fallback_read :: nat call, Inr 1 :: exn + nat) =
          (Read_parquet p [''l'', ''b''] [] ''fastparquet'', Inr d))"
proof -
  have run: "cell_read_parquet primary_missing
       ((fresh plain_logging fire_cmap)\<lparr>names := {''dd''}\<rparr>) =
     (None, snd (cell_read_parquet primary_missing
                   ((fresh plain_logging fire_cmap)\<lparr>names := {''dd''}\<rparr>)))"
    using load_primary_missing(1) by (simp add: prod_eq_iff)
  have "\<exists>p d. (p = primary_path \<or> p = fallback_path) \<and> Some (1::nat) = Some d \<and>
        (fallback_read :: nat call, Inr 1 :: exn + nat) =
          (Read_parquet p [''l'', ''b''] [] ''fastparquet'', Inr d)"
    using reads_differ_only_in_path [OF run] by (simp add: load_primary_missing)
  with run show ?thesis by (rule conjI)
qed

text \<open>
  C5.  In every execution the dataset reads are, in order, a prefix of: the primary path, the
  fallback path.  The cloud-storage path is never read.
\<close>

theorem reads_primary_then_fallback_only:
  "prefix (read_paths (calls (snd (run w L cmap)))) [primary_path, fallback_path] \<and>
   cloud_path \<notin> set (read_paths (calls (snd (run w L cmap))))"
proof -
  have "set (read_paths (calls (snd (run w L cmap)))) \<subseteq> set [primary_path, fallback_path]"
    using read_paths_run by (rule set_mono_prefix)
  moreover have "cloud_path \<notin> set [primary_path, fallback_path]"
    by (simp add: cloud_path_def primary_path_def fallback_path_def)
  ultimately show ?thesis using read_paths_run by blast
qed

theorem reads_primary_then_fallback_only_witness:
  "read_paths (calls (snd (run primary_missing plain_logging fire_cmap))) =
     [primary_path, fallback_path] \<and>
   prefix (read_paths (calls (snd (run primary_missing plain_logging fire_cmap))))
     [primary_path, fallback_path] \<and>
   cloud_path \<notin> set (read_paths (calls (snd (run primary_missing plain_logging fire_cmap))))"
  using reads_primary_then_fallback_only [of primary_missing plain_logging fire_cmap]
  by (simp add: run_primary_missing read_paths_def map_filter_simps primary_read_def
        fallback_read_def)

subsection \<open>Provisioning\<close>

text \<open>
  C4.  In every execution a cluster is only ever constructed from the worker template
  \<^verbatim>\<open>/etc/dask/dask_worker.yml\<close>, and a scale-up only ever asks for 15 workers, of the
  cluster that this construction has returned.  An execution that raises nothing has done
  both.
\<close>

theorem provisioning_template_and_15_workers:
  "(KubeCluster_from_yaml p \<in> set (calls (snd (run w L cmap))) \<longrightarrow> p = worker_template) \<and>
   (Cluster_scale_up c n \<in> set (calls (snd (run w L cmap))) \<longrightarrow>
      n = 15 \<and>
      (KubeCluster_from_yaml worker_template, Inr c) \<in> set (history (snd (run w L cmap)))) \<and>
   (fst (run w L cmap) = None \<longrightarrow>
      (\<exists>k. (KubeCluster_from_yaml worker_template, Inr k) \<in> set (history (snd (run w L cmap))) \<and>
           Cluster_scale_up k 15 \<in> set (calls (snd (run w L cmap)))))"
proof (intro conjI impI)
  assume "KubeCluster_from_yaml p \<in> set (calls (snd (run w L cmap)))"
  from call_in_script [OF this] show "p = worker_template"
    by (simp add: erase_def yaml_in_script)
next
  assume a: "Cluster_scale_up c n \<in> set (calls (snd (run w L cmap)))"
  from call_in_script [OF a] show "n = 15" by (simp add: erase_def scale_in_script)
  from scale_wired [OF a]
  show "(KubeCluster_from_yaml worker_template, Inr c) \<in> set (history (snd (run w L cmap)))" .
next
  assume "fst (run w L cmap) = None"
  from complete_calls [OF this]
  have "Cluster_scale_up () 15 \<in> set (map erase (calls (snd (run w L cmap))))"
  proof
    assume e: "map erase (calls (snd (run w L cmap))) = script_primary"
    show ?thesis unfolding e by (rule scale_in_scripts(1))
  next
    assume e: "map erase (calls (snd (run w L cmap))) = script_fallback"
    show ?thesis unfolding e by (rule scale_in_scripts(2))
  qed
  then obtain x where x: "x \<in> set (calls (snd (run w L cmap)))"
    and ex: "erase x = Cluster_scale_up () 15" by auto
  from ex obtain k where "x = Cluster_scale_up k 15"
    by (cases x) (auto simp add: erase_def)
  with x scale_wired [of k 15 w L cmap]
  show "\<exists>k. (KubeCluster_from_yaml worker_template, Inr k) \<in> set (history (snd (run w L cmap))) \<and>
            Cluster_scale_up k 15 \<in> set (calls (snd (run w L cmap)))"
    by blast
qed

theorem provisioning_template_and_15_workers_witness:
  "KubeCluster_from_yaml worker_template
     \<in> set (calls (snd (run obliging plain_logging fire_cmap))) \<and>
   Cluster_scale_up 6 15 \<in> set (calls (snd (run obliging plain_logging fire_cmap))) \<and>
   fst (run obliging plain_logging fire_cmap) = None \<and>
   (KubeCluster_from_yaml worker_template, Inr 6)
     \<in> set (history (snd (run obliging plain_logging fire_cmap)))"
  using provisioning_template_and_15_workers
    [of worker_template obliging plain_logging fire_cmap 6 15]
  by (simp add: run_obliging)

subsection \<open>Order of the operations\<close>



subsection \<open>Exceptions\<close>

text \<open>
  C2, as amended.  In every execution no call is made twice, and an exception that a call
  raises has one of three fates.  \<open>FileNotFoundError\<close> from the read of the primary path
  is caught by the notebook's handler, and the read of the fallback path follows.  An
  exception of the row count or of the rendering, the two calls made under \<^verbatim>\<open>%%time\<close>, is
  shown by the magic and the execution goes on with the next call.  Any other exception is
  the result of the execution, and its call is the last one made.  An execution that ends
  in an exception ends in one of this third kind.
\<close>

theorem exceptions_end_the_run_unless_caught_or_timed:
  "distinct (calls (snd (run w L cmap))) \<and>
   (fst (run w L cmap) = Some e \<longrightarrow>
      history (snd (run w L cmap)) \<noteq> [] \<and>
      snd (last (history (snd (run w L cmap)))) = Inl e \<and>
      \<not> handled (fst (last (history (snd (run w L cmap))))) e \<and>
      \<not> timed (fst (last (history (snd (run w L cmap)))))) \<and>
   (i < length (history (snd (run w L cmap))) \<longrightarrow>
      snd (history (snd (run w L cmap)) ! i) = Inl e \<longrightarrow>
      (if handled (fst (history (snd (run w L cmap)) ! i)) e
       then Suc i < length (history (snd (run w L cmap))) \<and>
            fst (history (snd (run w L cmap)) ! Suc i) = fallback_read
       else if timed (fst (history (snd (run w L cmap)) ! i))
       then Suc i < length (history (snd (run w L cmap))) \<and>
            e \<in> set (tracebacks (snd (run w L cmap)))
       else fst (run w L cmap) = Some e \<and> Suc i = length (history (snd (run w L cmap)))))"
proof (intro conjI impI)
  show "distinct (calls (snd (run w L cmap)))" by (rule distinct_calls)
next
  assume "fst (run w L cmap) = Some e"
  with run_facts(2) [of w L cmap]
  have "history (snd (run w L cmap)) \<noteq> [] \<and>
      snd (last (history (snd (run w L cmap)))) = Inl e \<and>
      \<not> handled (fst (last (history (snd (run w L cmap))))) e \<and>
      \<not> timed (fst (last (history (snd (run w L cmap)))))"
    by (simp add: outcomes_def)
  then show "history (snd (run w L cmap)) \<noteq> []"
    and "snd (last (history (snd (run w L cmap)))) = Inl e"
    and "\<not> handled (fst (last (history (snd (run w L cmap))))) e"
    and "\<not> timed (fst (last (history (snd (run w L cmap)))))"
    by blast+
next
  assume i: "i < length (history (snd (run w L cmap)))"
    and e: "snd (history (snd (run w L cmap)) ! i) = Inl e"
  have c: "caught_followed (history (snd (run w L cmap)))"
    and t: "shown (tracebacks (snd (run w L cmap))) (history (snd (run w L cmap)))"
    using run_facts(2) [of w L cmap] by (simp_all add: outcomes_def)
  show "if handled (fst (history (snd (run w L cmap)) ! i)) e
       then Suc i < length (history (snd (run w L cmap))) \<and>
            fst (history (snd (run w L cmap)) ! Suc i) = fallback_read
       else if timed (fst (history (snd (run w L cmap)) ! i))
       then Suc i < length (history (snd (run w L cmap))) \<and>
            e \<in> set (tracebacks (snd (run w L cmap)))
       else fst (run w L cmap) = Some e \<and> Suc i = length (history (snd (run w L cmap)))"
    using caught_followed_nth [OF c i e] unhandled_is_last [OF run_facts(2) i e]
      timed_is_followed [OF i] shown_nth [OF t i e]
    by simp
qed

theorem exceptions_end_the_run_unless_caught_or_timed_witness:
  "11 < length (history (snd (run persist_fails plain_logging fire_cmap))) \<and>
   snd (history (snd (run persist_fails plain_logging fire_cmap)) ! 11) =
     Inl (OtherError ''TimeoutError'') \<and>
   \<not> handled (fst (history (snd (run persist_fails plain_logging fire_cmap)) ! 11))
       (OtherError ''TimeoutError'') \<and>
   \<not> timed (fst (history (snd (run persist_fails plain_logging fire_cmap)) ! 11)) \<and>
   fst (run persist_fails plain_logging fire_cmap) = Some (OtherError ''TimeoutError'') \<and>
   Suc 11 = length (history (snd (run persist_fails plain_logging fire_cmap))) \<and>
   12 < length (history (snd (run len_fails plain_logging fire_cmap))) \<and>
   snd (history (snd (run len_fails plain_logging fire_cmap)) ! 12) =
     Inl (OtherError ''KilledWorker'') \<and>
   timed (fst (history (snd (run len_fails plain_logging fire_cmap)) ! 12)) \<and>
   Suc 12 < length (history (snd (run len_fails plain_logging fire_cmap))) \<and>
   OtherError ''KilledWorker'' \<in> set (tracebacks (snd (run len_fails plain_logging fire_cmap)))"
  using exceptions_end_the_run_unless_caught_or_timed
      [of persist_fails plain_logging fire_cmap "OtherError ''TimeoutError''" 11]
    exceptions_end_the_run_unless_caught_or_timed
      [of len_fails plain_logging fire_cmap "OtherError ''KilledWorker''" 12]
  by (simp add: run_persist_fails run_len_fails handled_def timed_def)

text \<open>
  C2, as stated, fails: the exception that the row count raises does not reach the caller.
  The execution raises nothing and goes on to close the cluster.
\<close>

theorem row_count_exception_counterexample:
  "history (snd (run len_fails plain_logging fire_cmap)) ! 12 =
     (Df_len 11, Inl (OtherError ''KilledWorker'')) \<and>
   fst (run len_fails plain_logging fire_cmap) = None \<and>
   last (history (snd (run len_fails plain_logging fire_cmap))) = (Cluster_close 6, Inr 16)"
  by (simp add: run_len_fails)

subsection \<open>Global state\<close>




subsection \<open>Logging\<close>

text \<open>
  C9.  After the logging loop each of the loggers \<^verbatim>\<open>distributed\<close>, \<^verbatim>\<open>distributed.core\<close>,
  \<^verbatim>\<open>distributed.comm\<close>, \<^verbatim>\<open>distributed.client\<close> and \<^verbatim>\<open>distributed.scheduler\<close> has an
  effective level of at least \<^verbatim>\<open>INFO\<close>.  A logger among them whose effective level was at
  least \<^verbatim>\<open>INFO\<close> before keeps its own level and its effective level, and \<^verbatim>\<open>setLevel\<close> is not
  called on it.
\<close>

theorem logging_setup_reaches_INFO:
  assumes "name \<in> {''distributed'', ''distributed.core'', ''distributed.comm'',
                    ''distributed.client'', ''distributed.scheduler''}"
  shows "INFO \<le> getEffectiveLevel (logging_setup L) name \<and>
         (INFO \<le> getEffectiveLevel L name \<longrightarrow>
            level (logging_setup L) name = level L name \<and>
            getEffectiveLevel (logging_setup L) name = getEffectiveLevel L name \<and>
            name \<notin> set (written_by_setup L))"
proof -
  from assms have "name \<in> set distributed_loggers" by (simp add: names_cases)
  then show ?thesis
    by (simp add: setup_eff setup_level_keep setup_eff_keep setup_not_written)
qed

theorem logging_setup_reaches_INFO_witness:
  "getEffectiveLevel debug_logging ''distributed'' = 10 \<and>
   INFO \<le> getEffectiveLevel (logging_setup debug_logging) ''distributed'' \<and>
   ''distributed'' \<in> set (written_by_setup debug_logging) \<and>
   INFO \<le> getEffectiveLevel debug_logging ''distributed.comm'' \<and>
   INFO \<le> getEffectiveLevel (logging_setup debug_logging) ''distributed.comm'' \<and>
   level (logging_setup debug_logging) ''distributed.comm'' = 30 \<and>
   ''distributed.comm'' \<notin> set (written_by_setup debug_logging)"
  using logging_setup_reaches_INFO [of "''distributed''" debug_logging]
    logging_setup_reaches_INFO [of "''distributed.comm''" debug_logging]
  by (simp add: setup_debug INFO_def)

end
